theory Spec2Isabelle
  imports Main "HOL-Library.AList"
begin

section \<open>JavaScript values\<close>

text \<open>
  The documents handled by \<^verbatim>\<open>MongoDriver\<close> are JavaScript values. A plain object is an
  association list in insertion order (\<^verbatim>\<open>Object.keys\<close> enumerates it in that order); an
  \<^verbatim>\<open>ObjectId\<close> instance carries its 24 hexadecimal digits in lower case (two identifiers are
  equal when their twelve bytes are); a \<^verbatim>\<open>RegExp\<close> instance carries its source.
  Numbers are integers: no claim depends on fractions.
\<close>

datatype jsval =
    Undefined
  | Null
  | Bool bool
  | Num int
  | Str string
  | ObjectId string
  | RegExp string
  | Arr "jsval list"
  | Obj "(string \<times> jsval) list"

datatype error =
    Error string      \<comment> \<open>\<^verbatim>\<open>throw new Error(message)\<close>\<close>
  | TypeError         \<comment> \<open>raised by the runtime: \<^verbatim>\<open>in\<close> on a primitive, a property of \<^verbatim>\<open>undefined\<close>\<close>
  | SyntaxError       \<comment> \<open>\<^verbatim>\<open>new RegExp(s)\<close> on a pattern that does not compile\<close>
  | BSONError         \<comment> \<open>\<^verbatim>\<open>new ObjectId(s)\<close> on a string that is no identifier\<close>
  | RangeError        \<comment> \<open>the call stack is exhausted\<close>

type_synonym 'a result = "error + 'a"

definition ConflictError :: error where
  "ConflictError = Error ''Cannot merge multiple $fulltext conditions to top level of the query object.''"

definition ValidationError :: error where
  "ValidationError = Error ''Full text search is only supported on the top level of the query object.''"

text \<open>A statement that throws ends the call: the first error of a sequence is its result.\<close>

fun result_bind :: "'a result \<Rightarrow> ('a \<Rightarrow> 'b result) \<Rightarrow> 'b result" where
  "result_bind (Inl e) f = Inl e"
| "result_bind (Inr x) f = f x"

text \<open>\<^verbatim>\<open>xs.map(f)\<close> with a callback that may throw.\<close>

fun map_result :: "('a \<Rightarrow> 'b result) \<Rightarrow> 'a list \<Rightarrow> 'b list result" where
  "map_result f [] = Inr []"
| "map_result f (x # xs) =
     result_bind (f x) (\<lambda>y. result_bind (map_result f xs) (\<lambda>ys. Inr (y # ys)))"

text \<open>\<^verbatim>\<open>keys.forEach(k => ...)\<close> over a document that the callback updates, or throws.\<close>

fun forEach_result :: "('s \<Rightarrow> 'k \<Rightarrow> 's result) \<Rightarrow> 'k list \<Rightarrow> 's \<Rightarrow> 's result" where
  "forEach_result f [] s = Inr s"
| "forEach_result f (k # ks) s = result_bind (f s k) (forEach_result f ks)"

subsection \<open>Strings\<close>

definition lower_char :: "char \<Rightarrow> char" where
  "lower_char c =
     (case map_of (zip ''ABCDEFGHIJKLMNOPQRSTUVWXYZ'' ''abcdefghijklmnopqrstuvwxyz'') c of
        Some d \<Rightarrow> d
      | None \<Rightarrow> c)"

definition toLowerCase :: "string \<Rightarrow> string" where
  "toLowerCase s = map lower_char s"

definition is_hex_char :: "char \<Rightarrow> bool" where
  "is_hex_char c = (c \<in> set ''0123456789abcdefABCDEF'')"

text \<open>\<^verbatim>\<open>data.match(/^[0-9a-f]{24}$/i)\<close>: exactly 24 hexadecimal digits, either case.\<close>

definition is_hex24 :: "string \<Rightarrow> bool" where
  "is_hex24 s = (length s = 24 \<and> list_all is_hex_char s)"

text \<open>
  \<^verbatim>\<open>new ObjectId(s)\<close> of the \<^verbatim>\<open>bson\<close> package, on a string: the identifier of a
  24-digit hexadecimal string, an error on any other string.
\<close>

definition new_ObjectId :: "string \<Rightarrow> jsval result" where
  "new_ObjectId s = (if is_hex24 s then Inr (ObjectId (toLowerCase s)) else Inl BSONError)"

subsection \<open>Objects as association lists\<close>

text \<open>
  Reading a property that is absent gives \<^verbatim>\<open>undefined\<close>; assigning keeps the position of a
  key that is present and appends a new one; \<^verbatim>\<open>delete\<close> removes the key.
\<close>

definition js_has :: "(string \<times> 'v) list \<Rightarrow> string \<Rightarrow> bool" where
  "js_has kvs k = (k \<in> fst ` set kvs)"

definition js_get :: "(string \<times> jsval) list \<Rightarrow> string \<Rightarrow> jsval" where
  "js_get kvs k = (case map_of kvs k of None \<Rightarrow> Undefined | Some v \<Rightarrow> v)"

definition js_set :: "(string \<times> 'v) list \<Rightarrow> string \<Rightarrow> 'v \<Rightarrow> (string \<times> 'v) list" where
  "js_set kvs k v = AList.update k v kvs"

definition js_delete :: "(string \<times> 'v) list \<Rightarrow> string \<Rightarrow> (string \<times> 'v) list" where
  "js_delete kvs k = AList.delete k kvs"

text \<open>Truthiness, as \<^verbatim>\<open>if (x)\<close>, \<^verbatim>\<open>!x\<close> and \<^verbatim>\<open>!!x\<close> read a value.\<close>

fun truthy :: "jsval \<Rightarrow> bool" where
  "truthy Undefined = False"
| "truthy Null = False"
| "truthy (Bool b) = b"
| "truthy (Num n) = (n \<noteq> 0)"
| "truthy (Str s) = (s \<noteq> [])"
| "truthy _ = True"

text \<open>\<^verbatim>\<open>x == null\<close> and \<^verbatim>\<open>x != null\<close>: \<^verbatim>\<open>null\<close> and \<^verbatim>\<open>undefined\<close> only.\<close>

fun is_nullish :: "jsval \<Rightarrow> bool" where
  "is_nullish Undefined = True"
| "is_nullish Null = True"
| "is_nullish _ = False"

text \<open>
  \<^verbatim>\<open>key in x\<close>, for the keys the driver tests (\<^verbatim>\<open>$fulltext\<close> and \<^verbatim>\<open>$re\<close>, which are no array
  index): an own key of a plain object; no key of an array, an identifier or a regular
  expression; a \<^verbatim>\<open>TypeError\<close> on a primitive.
\<close>

fun js_in :: "string \<Rightarrow> jsval \<Rightarrow> bool result" where
  "js_in k (Obj kvs) = Inr (js_has kvs k)"
| "js_in k (Arr xs) = Inr False"
| "js_in k (ObjectId s) = Inr False"
| "js_in k (RegExp s) = Inr False"
| "js_in k _ = Inl TypeError"

text \<open>\<^verbatim>\<open>x.key\<close> and \<^verbatim>\<open>delete x.key\<close> on a value that \<^verbatim>\<open>key in x\<close> accepted.\<close>

fun js_prop :: "jsval \<Rightarrow> string \<Rightarrow> jsval" where
  "js_prop (Obj kvs) k = js_get kvs k"
| "js_prop _ k = Undefined"

fun js_delete_prop :: "jsval \<Rightarrow> string \<Rightarrow> jsval" where
  "js_delete_prop (Obj kvs) k = Obj (js_delete kvs k)"
| "js_delete_prop v k = v"

text \<open>
  \<^verbatim>\<open>xs[0]\<close> of an array of strings, \<^verbatim>\<open>undefined\<close> when the array is empty, and the
  property key a value stands for where it is used as one (\<^verbatim>\<open>undefined\<close> names the key
  \<^verbatim>\<open>undefined\<close>).
\<close>

fun index0 :: "string list \<Rightarrow> jsval" where
  "index0 [] = Undefined"
| "index0 (x # xs) = Str x"

fun property_key :: "jsval \<Rightarrow> string" where
  "property_key (Str s) = s"
| "property_key _ = ''undefined''"

subsection \<open>Decimal keys\<close>

definition digit_char :: "nat \<Rightarrow> char" where
  "digit_char d = ''0123456789'' ! d"

function show_nat :: "nat \<Rightarrow> string" where
  "show_nat n = (if n < 10 then [digit_char n] else show_nat (n div 10) @ [digit_char (n mod 10)])"
  by pat_completeness auto
termination
  by (relation "measure id") auto

declare show_nat.simps [simp del]

definition index_keys :: "'a list \<Rightarrow> (string \<times> 'a) list" where
  "index_keys xs = zip (map show_nat [0 ..< length xs]) xs"

subsection \<open>Numbers read from values\<close>

text \<open>
  The loop of lines 242-253 compares its index with \<^verbatim>\<open>copiedData.$and.length\<close>, whatever
  that value is: the comparison reads it as a number (\<^verbatim>\<open>ToNumber\<close>). A number read from a
  value is not a number, an infinity, or a decimal \<^verbatim>\<open>m\<close> times ten to the power \<^verbatim>\<open>e\<close>; it
  is kept exact (the rounding of a long literal to a double is not followed).
\<close>

datatype number = NaN | PlusInfinity | MinusInfinity | Decimal int int

fun negate :: "number \<Rightarrow> number" where
  "negate NaN = NaN"
| "negate PlusInfinity = MinusInfinity"
| "negate MinusInfinity = PlusInfinity"
| "negate (Decimal m e) = Decimal (- m) e"

definition is_digit :: "char \<Rightarrow> bool" where
  "is_digit c = (c \<in> set ''0123456789'')"

definition digit_of :: "char \<Rightarrow> nat" where
  "digit_of c =
     (case map_of (zip ''0123456789abcdef'' [0 ..< 16]) (lower_char c) of
        Some d \<Rightarrow> d
      | None \<Rightarrow> 0)"

definition digits_value :: "nat \<Rightarrow> string \<Rightarrow> nat" where
  "digits_value base ds = foldl (\<lambda>n c. n * base + digit_of c) 0 ds"

text \<open>The white space and the line ends that a numeric string may begin and end with.\<close>

definition is_space :: "char \<Rightarrow> bool" where
  "is_space c = (c \<in> set [CHR 0x09, CHR 0x0A, CHR 0x0B, CHR 0x0C, CHR 0x0D, CHR 0x20, CHR 0xA0])"

definition trim :: "string \<Rightarrow> string" where
  "trim s = rev (dropWhile is_space (rev (dropWhile is_space s)))"

text \<open>The exponent part after \<^verbatim>\<open>e\<close>: an optional sign and at least one digit.\<close>

definition exponent :: "string \<Rightarrow> int option" where
  "exponent s =
     (case s of
        [] \<Rightarrow> None
      | c # r \<Rightarrow>
          if c = CHR ''+'' \<or> c = CHR ''-'' then
            (if r \<noteq> [] \<and> list_all is_digit r
             then Some ((if c = CHR ''-'' then - 1 else 1) * int (digits_value 10 r))
             else None)
          else if list_all is_digit s then Some (int (digits_value 10 s))
          else None)"

text \<open>
  An unsigned decimal literal: \<^verbatim>\<open>Infinity\<close>, or digits with an optional fraction and an
  optional exponent (\<^verbatim>\<open>12\<close>, \<^verbatim>\<open>12.\<close>, \<^verbatim>\<open>12.5\<close>, \<^verbatim>\<open>.5\<close>, \<^verbatim>\<open>1e3\<close>).
\<close>

definition unsigned_decimal :: "string \<Rightarrow> number" where
  "unsigned_decimal s =
     (if s = ''Infinity'' then PlusInfinity
      else
        (let whole = takeWhile is_digit s;
             rest = dropWhile is_digit s;
             dotted = (rest \<noteq> [] \<and> hd rest = CHR ''.'');
             fraction = (if dotted then takeWhile is_digit (tl rest) else []);
             rest' = (if dotted then dropWhile is_digit (tl rest) else rest);
             mantissa = int (digits_value 10 (whole @ fraction))
         in if whole = [] \<and> fraction = [] then NaN
            else if rest' = [] then Decimal mantissa (- int (length fraction))
            else if hd rest' = CHR ''e'' \<or> hd rest' = CHR ''E'' then
              (case exponent (tl rest') of
                 None \<Rightarrow> NaN
               | Some x \<Rightarrow> Decimal mantissa (x - int (length fraction)))
            else NaN))"

text \<open>A literal in another base: \<^verbatim>\<open>0x1f\<close>, \<^verbatim>\<open>0o17\<close>, \<^verbatim>\<open>0b101\<close>; it takes no sign.\<close>

definition based_literal :: "string \<Rightarrow> number option" where
  "based_literal s =
     (case s of
        z # b # ds \<Rightarrow>
          if z = CHR ''0'' \<and> lower_char b = CHR ''x'' then
            Some (if ds \<noteq> [] \<and> list_all is_hex_char ds then Decimal (int (digits_value 16 ds)) 0 else NaN)
          else if z = CHR ''0'' \<and> lower_char b = CHR ''o'' then
            Some (if ds \<noteq> [] \<and> list_all (\<lambda>c. c \<in> set ''01234567'') ds
                  then Decimal (int (digits_value 8 ds)) 0 else NaN)
          else if z = CHR ''0'' \<and> lower_char b = CHR ''b'' then
            Some (if ds \<noteq> [] \<and> list_all (\<lambda>c. c \<in> set ''01'') ds
                  then Decimal (int (digits_value 2 ds)) 0 else NaN)
          else None
      | _ \<Rightarrow> None)"

text \<open>The number of a string: the empty string and white space alone are zero.\<close>

definition number_of_string :: "string \<Rightarrow> number" where
  "number_of_string s =
     (let t = trim s in
      if t = [] then Decimal 0 0
      else
        (case based_literal t of
           Some n \<Rightarrow> n
         | None \<Rightarrow>
             if hd t = CHR ''+'' then unsigned_decimal (tl t)
             else if hd t = CHR ''-'' then negate (unsigned_decimal (tl t))
             else unsigned_decimal t))"

text \<open>
  The string of a value (\<^verbatim>\<open>ToString\<close>, with the \<^verbatim>\<open>toString\<close> methods of arrays, plain
  objects, identifiers and regular expressions; the flags of a regular expression are not
  kept). An array joins the strings of its elements with commas, and \<^verbatim>\<open>null\<close> and
  \<^verbatim>\<open>undefined\<close> are empty in it.
\<close>

definition show_int :: "int \<Rightarrow> string" where
  "show_int n = (if n < 0 then CHR ''-'' # show_nat (nat (- n)) else show_nat (nat n))"

fun join :: "string list \<Rightarrow> string" where
  "join [] = []"
| "join [s] = s"
| "join (s # t # ss) = s @ CHR '','' # join (t # ss)"

fun to_string :: "jsval \<Rightarrow> string" where
  "to_string Undefined = ''undefined''"
| "to_string Null = ''null''"
| "to_string (Bool b) = (if b then ''true'' else ''false'')"
| "to_string (Num n) = show_int n"
| "to_string (Str s) = s"
| "to_string (ObjectId s) = s"
| "to_string (RegExp s) = CHR ''/'' # s @ ''/''"
| "to_string (Arr xs) =
     join (map (\<lambda>x. if x = Undefined \<or> x = Null then [] else to_string x) xs)"
| "to_string (Obj kvs) = ''[object Object]''"

text \<open>\<^verbatim>\<open>ToNumber\<close>: an object is read through its string.\<close>

fun to_number :: "jsval \<Rightarrow> number" where
  "to_number Undefined = NaN"
| "to_number Null = Decimal 0 0"
| "to_number (Bool b) = Decimal (if b then 1 else 0) 0"
| "to_number (Num n) = Decimal n 0"
| "to_number v = number_of_string (to_string v)"

text \<open>
  How many indices \<^verbatim>\<open>0\<close>, \<^verbatim>\<open>1\<close>, ... are below a number, counted up to a bound: the loop
  \<^verbatim>\<open>for (let i = 0; i < x; i++)\<close> runs that often when it is not left earlier.
\<close>

fun count_below :: "nat \<Rightarrow> number \<Rightarrow> nat" where
  "count_below bound NaN = 0"
| "count_below bound MinusInfinity = 0"
| "count_below bound PlusInfinity = bound"
| "count_below bound (Decimal m e) =
     (if m \<le> 0 then 0
      else if 0 \<le> e then min bound (nat m * 10 ^ nat e)
      else min bound ((nat m + 10 ^ nat (- e) - 1) div 10 ^ nat (- e)))"

text \<open>
  The elements \<^verbatim>\<open>x[0]\<close>, \<^verbatim>\<open>x[1]\<close>, ... of a plain object \<^verbatim>\<open>x\<close> that the loop reads, up to
  \<^verbatim>\<open>x.length\<close>. An index that is no key of the object reads as \<^verbatim>\<open>undefined\<close>, and the loop
  ends there with a \<^verbatim>\<open>TypeError\<close>: an object with \<^verbatim>\<open>n\<close> entries has an index that is no key
  among the first \<^verbatim>\<open>n + 1\<close>, so no more are listed.
\<close>

definition indexed_count :: "(string \<times> 'v) list \<Rightarrow> jsval \<Rightarrow> nat" where
  "indexed_count kvs length' = count_below (Suc (length kvs)) (to_number length')"

definition indexed :: "(string \<times> jsval) list \<Rightarrow> jsval list" where
  "indexed kvs =
     map (\<lambda>i. js_get kvs (show_nat i)) [0 ..< indexed_count kvs (js_get kvs ''length'')]"

text \<open>The same object with the elements as a loop over them leaves them.\<close>

definition put_indexed :: "(string \<times> 'v) list \<Rightarrow> 'v list \<Rightarrow> (string \<times> 'v) list" where
  "put_indexed kvs xs = fold (\<lambda>(i, x) kvs'. js_set kvs' (show_nat i) x) (zip [0 ..< length xs] xs) kvs"

text \<open>
  \<^verbatim>\<open>Object.assign({}, data)\<close>: the own enumerable properties of \<^verbatim>\<open>data\<close>. An array and a
  string give their elements under the keys \<^verbatim>\<open>0\<close>, \<^verbatim>\<open>1\<close>, ...; a number, a boolean,
  \<^verbatim>\<open>null\<close>, \<^verbatim>\<open>undefined\<close>, an identifier and a regular expression give none.
\<close>

fun object_assign :: "jsval \<Rightarrow> (string \<times> jsval) list" where
  "object_assign (Obj kvs) = kvs"
| "object_assign (Arr xs) = index_keys xs"
| "object_assign (Str s) = index_keys (map (\<lambda>c. Str [c]) s)"
| "object_assign _ = []"

section \<open>The identifier normalizer\<close>

text \<open>
  \<^verbatim>\<open>convertObjectIds\<close> (lines 319-339). An \<^verbatim>\<open>ObjectId\<close> is returned as it is; a string of
  24 hexadecimal digits becomes \<^verbatim>\<open>new ObjectId(data)\<close>; an array is mapped; the values of
  an object are replaced key by key (\<^verbatim>\<open>Utils.isObject\<close>: a non-null object that is no array;
  a \<^verbatim>\<open>RegExp\<close> has no enumerable key); anything else is returned as it is.
\<close>

fun convertObjectIds :: "jsval \<Rightarrow> jsval" where
  "convertObjectIds (ObjectId s) = ObjectId s"
| "convertObjectIds (Str s) = (if is_hex24 s then ObjectId (toLowerCase s) else Str s)"
| "convertObjectIds (Arr xs) = Arr (map convertObjectIds xs)"
| "convertObjectIds (Obj kvs) = Obj (map (\<lambda>(k, v). (k, convertObjectIds v)) kvs)"
| "convertObjectIds data = data"

section \<open>Entity metadata\<close>

text \<open>
  Modelled from the spec: \<^verbatim>\<open>ReferenceKind\<close> is declared in the core package. The source
  tells a scalar and an embedded property from every other kind, which it reads as a
  reference to an entity.
\<close>

datatype ReferenceKind = SCALAR | EMBEDDED | REFERENCE

text \<open>
  \<^verbatim>\<open>PopulateOptions\<close>, a requested field (a name, or a structured selection), and the
  options of \<^verbatim>\<open>find\<close> that the driver reads. \<^verbatim>\<open>first\<close> and \<^verbatim>\<open>last\<close> are written
  \<^verbatim>\<open>first_opt\<close> and \<^verbatim>\<open>last_opt\<close>, \<^verbatim>\<open>fields\<close> is written \<^verbatim>\<open>fields_opt\<close>; an option that is left out is \<^verbatim>\<open>undefined\<close>.
\<close>

record PopulateOptions =
  field :: string
  all :: bool

datatype EntityField = FieldName string | FieldObject "(string \<times> jsval) list"

record FindOptions =
  first_opt :: jsval
  last_opt :: jsval
  before :: jsval
  after :: jsval
  orderBy :: jsval
  limit :: jsval
  offset :: jsval
  populate :: "PopulateOptions list option"
  fields_opt :: "EntityField list option"

text \<open>
  The fields of \<^verbatim>\<open>EntityProperty\<close> and \<^verbatim>\<open>EntityMetadata\<close> that the driver reads.
  \<^verbatim>\<open>fieldNames\<close> may be \<^verbatim>\<open>undefined\<close>; \<^verbatim>\<open>formula\<close> is read for its truthiness only;
  \<^verbatim>\<open>expression\<close> is the resolver of a virtual entity, when it is a function (it is called
  with an entity manager of its own, the filter and the options).
\<close>

record EntityProperty =
  name :: string
  kind :: ReferenceKind
  type :: string
  fieldNames :: "string list option"
  array :: bool
  object :: bool
  lazy :: bool
  formula :: bool
  prop_serializedPrimaryKey :: bool

record EntityMetadata =
  props :: "EntityProperty list"
  primaryKeys :: "string list"
  serializedPrimaryKey :: "string option"
  embeddable :: bool
  virtual :: bool
  expression :: "(jsval \<Rightarrow> FindOptions \<Rightarrow> jsval list result) option"

text \<open>\<^verbatim>\<open>meta.properties[k]\<close>: the property of that name.\<close>

definition properties :: "EntityMetadata \<Rightarrow> string \<Rightarrow> EntityProperty option" where
  "properties meta k = find (\<lambda>p. name p = k) (props meta)"

text \<open>
  Modelled from the spec: \<^verbatim>\<open>getPrimaryProps\<close> is declared in the core package. It gives
  the properties of the primary keys, in the order of \<^verbatim>\<open>primaryKeys\<close>.
\<close>

definition getPrimaryProps :: "EntityMetadata \<Rightarrow> EntityProperty option list" where
  "getPrimaryProps meta = map (properties meta) (primaryKeys meta)"

text \<open>
  What a \<^verbatim>\<open>MongoDriver\<close> holds and inherits, as far as the functions below use it. None of
  it is in the sources, so each is a parameter:
  \<^item> \<^verbatim>\<open>metadata\<close>: \<^verbatim>\<open>this.metadata.find(entityName)\<close>, the schema registry;
  \<^item> \<^verbatim>\<open>inlineEmbeddables\<close>: the method of the base class \<^verbatim>\<open>DatabaseDriver\<close>, which
    rewrites the copied document where it stands; it gives the document after the call;
  \<^item> \<^verbatim>\<open>regexSource\<close>: the runtime's \<^verbatim>\<open>new RegExp(x)\<close>, as the source of the compiled
    pattern or the \<^verbatim>\<open>SyntaxError\<close> of a pattern that does not compile;
  \<^item> \<^verbatim>\<open>shouldHaveColumn\<close>: the capability check of the platform;
  \<^item> \<^verbatim>\<open>processCursorOptions\<close>: the method of the base class that turns the cursor
    options and the ordering into the new ordering and the additional filter;
  \<^item> \<^verbatim>\<open>connectionFind\<close>: \<^verbatim>\<open>this.getConnection('read').find\<close> with the entity name, the
    filter, the ordering, the limit, the offset and the projection, giving the rows of the
    store in the order the store returns them, or the error of the store;
  \<^item> \<^verbatim>\<open>mapResult\<close>: the method of the base class that maps a row of the store;
  \<^item> \<^verbatim>\<open>superFindVirtual\<close>: \<^verbatim>\<open>findVirtual\<close> of the base class.
\<close>

record MongoDriver =
  metadata :: "string \<Rightarrow> EntityMetadata option"
  inlineEmbeddables :: "EntityMetadata \<Rightarrow> (string \<times> jsval) list \<Rightarrow> bool \<Rightarrow> (string \<times> jsval) list"
  regexSource :: "jsval \<Rightarrow> string result"
  shouldHaveColumn :: "EntityProperty \<Rightarrow> PopulateOptions list \<Rightarrow> bool"
  processCursorOptions :: "EntityMetadata \<Rightarrow> FindOptions \<Rightarrow> jsval \<Rightarrow> (jsval \<times> jsval) result"
  connectionFind ::
    "string \<Rightarrow> jsval \<Rightarrow> jsval list \<Rightarrow> jsval \<Rightarrow> jsval \<Rightarrow> jsval list option \<Rightarrow> jsval list result"
  mapResult :: "jsval \<Rightarrow> EntityMetadata option \<Rightarrow> jsval"
  superFindVirtual :: "string \<Rightarrow> jsval \<Rightarrow> FindOptions \<Rightarrow> jsval list result"

section \<open>Helpers of the core package\<close>

text \<open>
  Modelled from the spec: \<^verbatim>\<open>Utils.isGroupOperator\<close> is declared in the core package. The
  group operators are the logical AND and OR groupings, \<^verbatim>\<open>$and\<close> and \<^verbatim>\<open>$or\<close>.
\<close>

definition isGroupOperator :: "string \<Rightarrow> bool" where
  "isGroupOperator k = (k = ''$and'' \<or> k = ''$or'')"

text \<open>
  Modelled from the spec: \<^verbatim>\<open>Utils.isPlainObject\<close> is declared in the core package. A plain
  object is a mapping from keys to values: no array, no identifier, no regular expression.
\<close>

fun isPlainObject :: "jsval \<Rightarrow> bool" where
  "isPlainObject (Obj kvs) = True"
| "isPlainObject _ = False"

fun isArray :: "jsval \<Rightarrow> bool" where
  "isArray (Arr xs) = True"
| "isArray _ = False"

fun elements :: "jsval \<Rightarrow> jsval list" where
  "elements (Arr xs) = xs"
| "elements _ = []"

text \<open>
  Modelled from the spec: \<^verbatim>\<open>Utils.renameKey\<close> is declared in the core package. The key
  \<^verbatim>\<open>from\<close> is replaced by \<^verbatim>\<open>to\<close> where it stands, with its value (renaming replaces the key
  and never duplicates it); a document without the key, or one that has the key \<^verbatim>\<open>to\<close>
  already, is left as it is.
\<close>

definition renameKey :: "(string \<times> 'v) list \<Rightarrow> string \<Rightarrow> string \<Rightarrow> (string \<times> 'v) list" where
  "renameKey payload from_key to_key =
     (if js_has payload from_key \<and> \<not> js_has payload to_key
      then map (\<lambda>(k, v). (if k = from_key then to_key else k, v)) payload
      else payload)"

text \<open>
  Modelled from the spec: \<^verbatim>\<open>Utils.hasNestedKey\<close> is declared in the core package. The key is
  found at any depth: as a key of the document itself, or in a value reached through nested
  objects and arrays.
\<close>

fun hasNestedKey :: "jsval \<Rightarrow> string \<Rightarrow> bool" where
  "hasNestedKey (Arr xs) key = list_ex (\<lambda>x. hasNestedKey x key) xs"
| "hasNestedKey (Obj kvs) key = list_ex (\<lambda>(k, v). k = key \<or> hasNestedKey v key) kvs"
| "hasNestedKey _ key = False"

text \<open>
  Modelled from the spec: \<^verbatim>\<open>Utils.flatten\<close> is declared in the core package. The physical
  field names of the properties, one list after the other; a property without field names
  gives none.
\<close>

definition flatten :: "string list option list \<Rightarrow> jsval list" where
  "flatten arrays = concat (map (\<lambda>a. case a of None \<Rightarrow> [] | Some xs \<Rightarrow> map Str xs) arrays)"

section \<open>The field rewriter\<close>

subsection \<open>Hoisting the full-text condition (lines 239-260)\<close>

text \<open>
  The loop over \<^verbatim>\<open>copiedData.$and\<close> (lines 242-253): \<^verbatim>\<open>branch\<close> is \<^verbatim>\<open>copiedData.$and[i]\<close>.
  The result is the copy and the branches as the loop leaves them.
\<close>

fun hoist_loop ::
  "(string \<times> jsval) list \<Rightarrow> jsval list \<Rightarrow> ((string \<times> jsval) list \<times> jsval list) result" where
  "hoist_loop copiedData [] = Inr (copiedData, [])"
| "hoist_loop copiedData (branch # rest) =
     result_bind (js_in ''$fulltext'' branch) (\<lambda>found.
       if found then
         if js_has copiedData ''$fulltext'' then Inl ConflictError
         else result_bind
           (hoist_loop (js_set copiedData ''$fulltext'' (js_prop branch ''$fulltext'')) rest)
           (\<lambda>(c, branches). Inr (c, js_delete_prop branch ''$fulltext'' # branches))
       else result_bind (hoist_loop copiedData rest) (\<lambda>(c, branches). Inr (c, branch # branches)))"

text \<open>
  Lines 241-254. \<^verbatim>\<open>copiedData.$and.length\<close> is the number of elements of an array. A plain
  object has the length that its key \<^verbatim>\<open>length\<close> gives, read as a number, and its elements
  under the index keys; the loop deletes \<^verbatim>\<open>$fulltext\<close> from them where they stand. A
  non-empty string has its characters as elements, and \<^verbatim>\<open>in\<close> fails on the first. A number,
  a boolean, an identifier and a regular expression have no length, so the loop does not
  run.

  A value holds no object at two positions: the branches are objects of their own, and the
  key deleted from one stays in the others. \<^verbatim>\<open>hoist_loopH\<close> below follows the same lines on a
  store, for documents that hold an object more than once.
\<close>

definition hoistFulltext :: "(string \<times> jsval) list \<Rightarrow> (string \<times> jsval) list result" where
  "hoistFulltext copiedData =
     (if truthy (js_get copiedData ''$and'') then
        (case js_get copiedData ''$and'' of
           Arr branches \<Rightarrow>
             result_bind (hoist_loop copiedData branches)
               (\<lambda>(c, branches'). Inr (js_set c ''$and'' (Arr branches')))
         | Obj kvs \<Rightarrow>
             result_bind (hoist_loop copiedData (indexed kvs))
               (\<lambda>(c, branches'). Inr (js_set c ''$and'' (Obj (put_indexed kvs branches'))))
         | Str s \<Rightarrow> Inl TypeError
         | _ \<Rightarrow> Inr copiedData)
      else Inr copiedData)"

text \<open>Lines 256-260: \<^verbatim>\<open>$fulltext\<close> at the top level becomes \<^verbatim>\<open>$text: { $search: ... }\<close>.\<close>

definition moveFulltext :: "(string \<times> jsval) list \<Rightarrow> (string \<times> jsval) list" where
  "moveFulltext copiedData =
     (if js_has copiedData ''$fulltext''
      then js_delete
             (js_set copiedData ''$text'' (Obj [(''$search'', js_get copiedData ''$fulltext'')]))
             ''$fulltext''
      else copiedData)"

subsection \<open>The callback of the loop over the keys (lines 268-314)\<close>

text \<open>
  In the definitions below \<^verbatim>\<open>rename\<close> stands for the recursive call
  \<^verbatim>\<open>this.renameFields(entityName, data, where, object)\<close>.
\<close>

type_synonym renamer = "string \<Rightarrow> jsval \<Rightarrow> bool \<Rightarrow> bool \<Rightarrow> jsval result"

text \<open>Lines 269-278: a group operator; the recursive calls leave \<^verbatim>\<open>where\<close> at its default.\<close>

definition renameGroup ::
  "renamer \<Rightarrow> string \<Rightarrow> (string \<times> jsval) list \<Rightarrow> string \<Rightarrow> (string \<times> jsval) list result" where
  "renameGroup rename entityName copiedData k =
     (if isArray (js_get copiedData k)
      then result_bind (map_result (\<lambda>v. rename entityName v False False) (elements (js_get copiedData k)))
             (\<lambda>vs. Inr (js_set copiedData k (Arr vs)))
      else result_bind (rename entityName (js_get copiedData k) False False)
             (\<lambda>v. Inr (js_set copiedData k v)))"

text \<open>Lines 291-295: the value of an embedded property that is not null.\<close>

definition renameEmbedded ::
  "renamer \<Rightarrow> EntityProperty \<Rightarrow> bool \<Rightarrow> bool \<Rightarrow> (string \<times> jsval) list \<Rightarrow> (string \<times> jsval) list result" where
  "renameEmbedded rename p where' object' copiedData =
     (if array p \<and> isArray (js_get copiedData (name p))
      then result_bind
             (map_result (\<lambda>item. rename (type p) item where' True) (elements (js_get copiedData (name p))))
             (\<lambda>items. Inr (js_set copiedData (name p) (Arr items)))
      else result_bind (rename (type p) (js_get copiedData (name p)) where' (object p \<or> object'))
             (\<lambda>v. Inr (js_set copiedData (name p) v)))"

text \<open>
  Lines 297-299: a reference is identifier-shaped when the first primary key of the target
  entity has the type \<^verbatim>\<open>objectid\<close>; a target or a primary key that the registry does not
  know is a property read of \<^verbatim>\<open>undefined\<close>.
\<close>

definition referenceIsObjectId :: "MongoDriver \<Rightarrow> EntityProperty \<Rightarrow> bool result" where
  "referenceIsObjectId drv p =
     (case metadata drv (type p) of
        None \<Rightarrow> Inl TypeError
      | Some meta2 \<Rightarrow>
          (case properties meta2 (property_key (index0 (primaryKeys meta2))) of
             None \<Rightarrow> Inl TypeError
           | Some pk \<Rightarrow> Inr (toLowerCase (type pk) = ''objectid'')))"

text \<open>Lines 311-313: the regular-expression shorthand \<^verbatim>\<open>{ $re: pattern }\<close>.\<close>

definition convertRegExp ::
  "MongoDriver \<Rightarrow> (string \<times> jsval) list \<Rightarrow> string \<Rightarrow> (string \<times> jsval) list result" where
  "convertRegExp drv copiedData k =
     (if isPlainObject (js_get copiedData k) \<and> js_in ''$re'' (js_get copiedData k) = Inr True
      then result_bind (regexSource drv (js_prop (js_get copiedData k) ''$re''))
             (\<lambda>source. Inr (js_set copiedData k (RegExp source)))
      else Inr copiedData)"

text \<open>Lines 302-313: identifier normalization, the renaming of the key, the shorthand.\<close>

definition finishProperty ::
  "MongoDriver \<Rightarrow> EntityProperty \<Rightarrow> bool \<Rightarrow> (string \<times> jsval) list \<Rightarrow> string \<Rightarrow> (string \<times> jsval) list result" where
  "finishProperty drv p isObjectId copiedData k =
     (let copiedData1 =
            (if isObjectId then js_set copiedData k (convertObjectIds (js_get copiedData k))
             else copiedData);
          copiedData2 =
            (case fieldNames p of
               Some names \<Rightarrow> renameKey copiedData1 k (property_key (index0 names))
             | None \<Rightarrow> copiedData1)
      in convertRegExp drv copiedData2 k)"

text \<open>
  The callback itself. An embedded property whose value is \<^verbatim>\<open>null\<close> or \<^verbatim>\<open>undefined\<close>
  returns at once (line 288).
\<close>

definition renameEntry ::
  "renamer \<Rightarrow> MongoDriver \<Rightarrow> string \<Rightarrow> EntityMetadata option \<Rightarrow> bool \<Rightarrow> bool \<Rightarrow>
   (string \<times> jsval) list \<Rightarrow> string \<Rightarrow> (string \<times> jsval) list result" where
  "renameEntry rename drv entityName meta where' object' copiedData k =
     (if isGroupOperator k then renameGroup rename entityName copiedData k
      else
        (case (case meta of None \<Rightarrow> None | Some m \<Rightarrow> properties m k) of
           None \<Rightarrow> convertRegExp drv copiedData k
         | Some p \<Rightarrow>
             (case kind p of
                SCALAR \<Rightarrow> finishProperty drv p (toLowerCase (type p) = ''objectid'') copiedData k
              | EMBEDDED \<Rightarrow>
                  if is_nullish (js_get copiedData (name p)) then Inr copiedData
                  else result_bind (renameEmbedded rename p where' object' copiedData)
                         (\<lambda>c. finishProperty drv p False c k)
              | REFERENCE \<Rightarrow>
                  result_bind (referenceIsObjectId drv p)
                    (\<lambda>isObjectId. finishProperty drv p isObjectId copiedData k))))"

subsection \<open>\<^verbatim>\<open>renameFields\<close> (lines 226-317)\<close>

text \<open>Lines 231-233: the serialized primary key is renamed to the first primary key.\<close>

definition renameSerializedPrimaryKey ::
  "EntityMetadata option \<Rightarrow> (string \<times> jsval) list \<Rightarrow> (string \<times> jsval) list" where
  "renameSerializedPrimaryKey meta copiedData =
     (case meta of
        None \<Rightarrow> copiedData
      | Some m \<Rightarrow>
          (case serializedPrimaryKey m of
             None \<Rightarrow> copiedData
           | Some spk \<Rightarrow>
               if spk \<noteq> [] \<and> \<not> embeddable m \<and> Str spk \<noteq> index0 (primaryKeys m)
               then renameKey copiedData spk (property_key (index0 (primaryKeys m)))
               else copiedData))"

text \<open>Lines 235-237.\<close>

definition callInlineEmbeddables ::
  "MongoDriver \<Rightarrow> EntityMetadata option \<Rightarrow> (string \<times> jsval) list \<Rightarrow> bool \<Rightarrow> (string \<times> jsval) list" where
  "callInlineEmbeddables drv meta copiedData where' =
     (case meta of
        None \<Rightarrow> copiedData
      | Some m \<Rightarrow> if \<not> embeddable m then inlineEmbeddables drv m copiedData where' else copiedData)"

text \<open>Lines 228-237: the copy as it reaches the hoisting step.\<close>

definition copyForHoisting ::
  "MongoDriver \<Rightarrow> string \<Rightarrow> jsval \<Rightarrow> bool \<Rightarrow> (string \<times> jsval) list" where
  "copyForHoisting drv entityName data where' =
     (let meta = metadata drv entityName;
          copiedData = object_assign data;
          copiedData = renameSerializedPrimaryKey meta copiedData
      in callInlineEmbeddables drv meta copiedData where')"

text \<open>Lines 228-260: the copy as it stands before the guard of line 264.\<close>

definition prepareCopy ::
  "MongoDriver \<Rightarrow> string \<Rightarrow> jsval \<Rightarrow> bool \<Rightarrow> (string \<times> jsval) list result" where
  "prepareCopy drv entityName data where' =
     result_bind (hoistFulltext (copyForHoisting drv entityName data where'))
       (\<lambda>copiedData. Inr (moveFulltext copiedData))"

text \<open>One call, with \<^verbatim>\<open>rename\<close> for the calls it makes.\<close>

definition renameFields_call ::
  "renamer \<Rightarrow> MongoDriver \<Rightarrow> string \<Rightarrow> jsval \<Rightarrow> bool \<Rightarrow> bool \<Rightarrow> jsval result" where
  "renameFields_call rename drv entityName data where' object' =
     result_bind (prepareCopy drv entityName data where') (\<lambda>copiedData.
       if hasNestedKey (Obj copiedData) ''$fulltext'' then Inl ValidationError
       else result_bind
              (forEach_result
                 (renameEntry rename drv entityName (metadata drv entityName) where' object')
                 (map fst copiedData) copiedData)
              (\<lambda>c. Inr (Obj c)))"

text \<open>
  \<^verbatim>\<open>renameFields\<close>, with the depth of the call stack that is left: a call that finds the
  stack exhausted fails with a \<^verbatim>\<open>RangeError\<close>. The optional parameters \<^verbatim>\<open>where\<close> and
  \<^verbatim>\<open>object\<close> are \<^verbatim>\<open>False\<close> when they are left out (both are read for their truthiness).
\<close>

fun renameFields ::
  "nat \<Rightarrow> MongoDriver \<Rightarrow> string \<Rightarrow> jsval \<Rightarrow> bool \<Rightarrow> bool \<Rightarrow> jsval result" where
  "renameFields 0 drv entityName data where' object' = Inl RangeError"
| "renameFields (Suc stack) drv entityName data where' object' =
     renameFields_call (renameFields stack drv) drv entityName data where' object'"




section \<open>The filter of a primary key (lines 341-349)\<close>

definition buildFilterById :: "MongoDriver \<Rightarrow> string \<Rightarrow> string \<Rightarrow> jsval result" where
  "buildFilterById drv entityName id' =
     (case metadata drv entityName of
        None \<Rightarrow> Inl TypeError
      | Some meta \<Rightarrow>
          (case properties meta (property_key (index0 (primaryKeys meta))) of
             None \<Rightarrow> Inl TypeError
           | Some pk \<Rightarrow>
               if toLowerCase (type pk) = ''objectid''
               then result_bind (new_ObjectId id') (\<lambda>oid. Inr (Obj [(''_id'', oid)]))
               else Inr (Obj [(''_id'', Str id')])))"

section \<open>The projection builder (lines 351-397)\<close>

text \<open>Line 358, and the expansion of lines 383-384 and 392-393.\<close>

definition lazyProps :: "EntityMetadata \<Rightarrow> PopulateOptions list \<Rightarrow> EntityProperty list" where
  "lazyProps meta populate' =
     filter (\<lambda>p. lazy p \<and> \<not> list_ex (\<lambda>q. field q = name p \<or> all q) populate') (props meta)"

definition columnFieldNames :: "MongoDriver \<Rightarrow> EntityMetadata \<Rightarrow> PopulateOptions list \<Rightarrow> jsval list" where
  "columnFieldNames drv meta populate' =
     flatten (map fieldNames
       (filter (\<lambda>p. p \<notin> set (lazyProps meta populate'))
          (filter (\<lambda>p. shouldHaveColumn drv p populate') (props meta))))"

text \<open>
  The body of the loop over the requested fields (lines 362-388): \<^verbatim>\<open>ret\<close> before and
  after one field. A requested field that is a plain object is skipped; a path is cut at its
  first dot.
\<close>

definition firstSegment :: "string \<Rightarrow> string" where
  "firstSegment f = (if CHR ''.'' \<in> set f then takeWhile (\<lambda>c. c \<noteq> CHR ''.'') f else f)"

definition buildField ::
  "MongoDriver \<Rightarrow> EntityMetadata \<Rightarrow> PopulateOptions list \<Rightarrow> jsval list \<Rightarrow> EntityField \<Rightarrow> jsval list result" where
  "buildField drv meta populate' ret requested =
     (case requested of
        FieldObject kvs \<Rightarrow> Inr ret
      | FieldName f0 \<Rightarrow>
          (let f = firstSegment f0 in
           case properties meta f of
             Some p \<Rightarrow>
               (case fieldNames p of
                  None \<Rightarrow> Inr ret
                | Some names \<Rightarrow>
                    if prop_serializedPrimaryKey p then
                      (case getPrimaryProps meta of
                         Some pk # rest \<Rightarrow>
                           (case fieldNames pk of
                              Some pknames \<Rightarrow> Inr (ret @ [index0 pknames])
                            | None \<Rightarrow> Inl TypeError)
                       | _ \<Rightarrow> Inl TypeError)
                    else Inr (ret @ [index0 names]))
           | None \<Rightarrow>
               if f = ''*'' then Inr (ret @ columnFieldNames drv meta populate')
               else Inr (ret @ [Str f])))"

fun field_value :: "EntityField \<Rightarrow> jsval" where
  "field_value (FieldName f) = Str f"
| "field_value (FieldObject kvs) = Obj kvs"

text \<open>
  \<^verbatim>\<open>buildFields\<close>: the names to fetch, or \<^verbatim>\<open>undefined\<close> (\<^verbatim>\<open>None\<close>). Line 390 puts the
  entries of \<^verbatim>\<open>meta.primaryKeys\<close> that the requested list does not include in front.
\<close>

definition buildFields ::
  "MongoDriver \<Rightarrow> string \<Rightarrow> PopulateOptions list \<Rightarrow> EntityField list option \<Rightarrow> jsval list option result" where
  "buildFields drv entityName populate' fields' =
     (case metadata drv entityName of
        None \<Rightarrow> Inr (map_option (map field_value) fields')
      | Some meta \<Rightarrow>
          result_bind
            (case fields' of
               Some fs \<Rightarrow>
                 result_bind (forEach_result (buildField drv meta populate') fs [])
                   (\<lambda>ret. Inr (map Str (filter (\<lambda>pk. FieldName pk \<notin> set fs) (primaryKeys meta)) @ ret))
             | None \<Rightarrow>
                 if filter (\<lambda>p. \<not> formula p) (lazyProps meta populate') \<noteq> []
                 then Inr (columnFieldNames drv meta populate')
                 else Inr [])
            (\<lambda>ret. Inr (if ret \<noteq> [] then Some ret else None)))"

section \<open>The facade: \<^verbatim>\<open>find\<close>, \<^verbatim>\<open>findOne\<close>, \<^verbatim>\<open>nativeUpdate\<close>, \<^verbatim>\<open>nativeDelete\<close>\<close>

text \<open>
  Modelled from the spec: \<^verbatim>\<open>Utils.isEmpty\<close> and \<^verbatim>\<open>Utils.asArray\<close> are declared in the core
  package. A condition is empty when it has no entry (or is no value at all); a single value
  stands for the array that holds it, and \<^verbatim>\<open>undefined\<close> for the empty array.
\<close>

fun isEmpty :: "jsval \<Rightarrow> bool" where
  "isEmpty (Arr xs) = (xs = [])"
| "isEmpty (Obj kvs) = (kvs = [])"
| "isEmpty (ObjectId s) = True"
| "isEmpty (RegExp s) = True"
| "isEmpty v = (\<not> truthy v)"

fun asArray :: "jsval \<Rightarrow> jsval list" where
  "asArray Undefined = []"
| "asArray (Arr xs) = xs"
| "asArray v = [v]"

text \<open>Line 56, and the local function of lines 59-69.\<close>

definition isCursorPagination :: "FindOptions \<Rightarrow> bool" where
  "isCursorPagination options =
     list_ex (\<lambda>v. \<not> is_nullish v) [first_opt options, last_opt options, before options, after options]"

definition andWhere :: "jsval \<Rightarrow> jsval \<Rightarrow> jsval" where
  "andWhere cond1 cond2 =
     (if isEmpty cond1 then cond2
      else if isEmpty cond2 then cond1
      else Obj [(''$and'', Arr [cond1, cond2])])"

text \<open>\<^verbatim>\<open>findVirtual\<close> (lines 112-122).\<close>

definition findVirtual :: "MongoDriver \<Rightarrow> string \<Rightarrow> jsval \<Rightarrow> FindOptions \<Rightarrow> jsval list result" where
  "findVirtual drv entityName where' options =
     (case metadata drv entityName of
        None \<Rightarrow> Inl TypeError
      | Some meta \<Rightarrow>
          (case expression meta of
             Some resolve \<Rightarrow> resolve where' options
           | None \<Rightarrow> superFindVirtual drv entityName where' options))"

text \<open>
  What \<^verbatim>\<open>find\<close> hands to the connection (lines 54-55, 70-74 and 83-86): the filter, the
  ordering and the projection.
\<close>

definition findArguments ::
  "nat \<Rightarrow> MongoDriver \<Rightarrow> string \<Rightarrow> jsval \<Rightarrow> FindOptions \<Rightarrow> (jsval \<times> jsval list \<times> jsval list option) result" where
  "findArguments stack drv entityName where' options =
     result_bind
       (buildFields drv entityName (case populate options of None \<Rightarrow> [] | Some p \<Rightarrow> p) (fields_opt options))
       (\<lambda>fields'.
     result_bind (renameFields stack drv entityName where' True False) (\<lambda>where1.
       if isCursorPagination options then
         (case metadata drv entityName of
            None \<Rightarrow> Inl TypeError
          | Some meta \<Rightarrow>
              result_bind (processCursorOptions drv meta options (orderBy options))
                (\<lambda>(newOrderBy, newWhere).
              result_bind (renameFields stack drv entityName newWhere True False)
                (\<lambda>newWhereConverted.
              result_bind
                (map_result (\<lambda>order. renameFields stack drv entityName order False False)
                   (asArray newOrderBy))
                (\<lambda>orderBy'. Inr (andWhere where1 newWhereConverted, orderBy', fields')))))
       else
         result_bind
           (map_result (\<lambda>order. renameFields stack drv entityName order False False)
              (asArray (orderBy options)))
           (\<lambda>orderBy'. Inr (where1, orderBy', fields'))))"

text \<open>
  \<^verbatim>\<open>find\<close> (lines 48-89), named \<^verbatim>\<open>find_rows\<close> here. The rows of the connection are
  reversed under the test of line 76, \<^verbatim>\<open>isCursorPagination && !first && !!last\<close>.
\<close>

definition find_rows ::
  "nat \<Rightarrow> MongoDriver \<Rightarrow> string \<Rightarrow> jsval \<Rightarrow> FindOptions \<Rightarrow> jsval list result" where
  "find_rows stack drv entityName where' options =
     (if (case metadata drv entityName of None \<Rightarrow> False | Some meta \<Rightarrow> virtual meta)
      then findVirtual drv entityName where' options
      else
        result_bind (findArguments stack drv entityName where' options) (\<lambda>(where2, orderBy', fields').
        result_bind
          (connectionFind drv entityName where2 orderBy' (limit options) (offset options) fields')
          (\<lambda>res.
             if isCursorPagination options then
               Inr (map (\<lambda>r. mapResult drv r (metadata drv entityName))
                      (if isCursorPagination options \<and> \<not> truthy (first_opt options)
                          \<and> truthy (last_opt options)
                       then rev res else res))
             else Inr (map (\<lambda>r. mapResult drv r (metadata drv entityName)) res))))"

text \<open>
  Modelled from the spec: \<^verbatim>\<open>Utils.isPrimaryKey\<close> is declared in the core package; a bare
  identifier value is the external string of an identifier.
\<close>

definition isPrimaryKey :: "jsval \<Rightarrow> bool" where
  "isPrimaryKey where' = (case where' of Str s \<Rightarrow> True | _ \<Rightarrow> False)"

text \<open>
  The filter that \<^verbatim>\<open>findOne\<close> builds for an entity that is not virtual (lines 98-100),
  and the filter it hands to the connection (line 103).
\<close>

definition findOne_where :: "MongoDriver \<Rightarrow> string \<Rightarrow> jsval \<Rightarrow> jsval result" where
  "findOne_where drv entityName where' =
     (if isPrimaryKey where' then buildFilterById drv entityName (property_key where')
      else Inr where')"

definition findOne_filter :: "nat \<Rightarrow> MongoDriver \<Rightarrow> string \<Rightarrow> jsval \<Rightarrow> jsval result" where
  "findOne_filter stack drv entityName where' =
     result_bind (findOne_where drv entityName where')
       (\<lambda>where1. renameFields stack drv entityName where1 True False)"

text \<open>The same for \<^verbatim>\<open>nativeUpdate\<close> (lines 151-153 and 155).\<close>

definition nativeUpdate_where :: "MongoDriver \<Rightarrow> string \<Rightarrow> jsval \<Rightarrow> jsval result" where
  "nativeUpdate_where drv entityName where' =
     (if isPrimaryKey where' then buildFilterById drv entityName (property_key where')
      else Inr where')"

definition nativeUpdate_filter :: "nat \<Rightarrow> MongoDriver \<Rightarrow> string \<Rightarrow> jsval \<Rightarrow> jsval result" where
  "nativeUpdate_filter stack drv entityName where' =
     result_bind (nativeUpdate_where drv entityName where')
       (\<lambda>where1. renameFields stack drv entityName where1 True False)"

text \<open>The same for \<^verbatim>\<open>nativeDelete\<close> (lines 209-211 and 213).\<close>

definition nativeDelete_where :: "MongoDriver \<Rightarrow> string \<Rightarrow> jsval \<Rightarrow> jsval result" where
  "nativeDelete_where drv entityName where' =
     (if isPrimaryKey where' then buildFilterById drv entityName (property_key where')
      else Inr where')"

definition nativeDelete_filter :: "nat \<Rightarrow> MongoDriver \<Rightarrow> string \<Rightarrow> jsval \<Rightarrow> jsval result" where
  "nativeDelete_filter stack drv entityName where' =
     result_bind (nativeDelete_where drv entityName where')
       (\<lambda>where1. renameFields stack drv entityName where1 True False)"

section \<open>The rewriter on a store of shared objects\<close>

text \<open>
  The definitions above compute with values. \<^verbatim>\<open>renameFields\<close> and \<^verbatim>\<open>convertObjectIds\<close>
  write to objects where they stand, and the copy of line 228 shares every nested object
  and array with the document of the caller. The definitions of this section follow the
  same lines of the source on an explicit store: a value is a primitive or the address of an
  object, an address is an index of the store, and a new object takes the next index.
\<close>

type_synonym addr = nat

datatype hval = HUndefined | HNull | HBool bool | HNum int | HStr string | Ref addr

datatype hobj =
    HObj "(string \<times> hval) list"
  | HArr "hval list"
  | HObjectId string
  | HRegExp string

type_synonym heap = "hobj list"

text \<open>
  A call gives its result, a value or the error it throws, and the store as it leaves it:
  what a call has written when it throws stays written.
\<close>

type_synonym 'a stored = "'a result \<times> heap"

fun bindH :: "'a stored \<Rightarrow> ('a \<Rightarrow> heap \<Rightarrow> 'b stored) \<Rightarrow> 'b stored" where
  "bindH (Inl e, h) f = (Inl e, h)"
| "bindH (Inr x, h) f = f x h"

definition alloc :: "hobj \<Rightarrow> heap \<Rightarrow> addr \<times> heap" where
  "alloc ob h = (length h, h @ [ob])"

definition lookup :: "heap \<Rightarrow> addr \<Rightarrow> hobj option" where
  "lookup h a = (if a < length h then Some (h ! a) else None)"

text \<open>The entries of the plain object at an address, and the write of its entries.\<close>

definition entries :: "heap \<Rightarrow> addr \<Rightarrow> (string \<times> hval) list" where
  "entries h a = (case lookup h a of Some (HObj kvs) \<Rightarrow> kvs | _ \<Rightarrow> [])"

definition put_entries :: "heap \<Rightarrow> addr \<Rightarrow> (string \<times> hval) list \<Rightarrow> heap" where
  "put_entries h a kvs = (case lookup h a of Some (HObj old) \<Rightarrow> h[a := HObj kvs] | _ \<Rightarrow> h)"

definition h_has :: "heap \<Rightarrow> addr \<Rightarrow> string \<Rightarrow> bool" where
  "h_has h a k = js_has (entries h a) k"

definition h_get :: "heap \<Rightarrow> addr \<Rightarrow> string \<Rightarrow> hval" where
  "h_get h a k = (case map_of (entries h a) k of None \<Rightarrow> HUndefined | Some v \<Rightarrow> v)"

definition h_set :: "heap \<Rightarrow> addr \<Rightarrow> string \<Rightarrow> hval \<Rightarrow> heap" where
  "h_set h a k v = put_entries h a (js_set (entries h a) k v)"

definition h_delete :: "heap \<Rightarrow> addr \<Rightarrow> string \<Rightarrow> heap" where
  "h_delete h a k = put_entries h a (js_delete (entries h a) k)"

definition h_renameKey :: "heap \<Rightarrow> addr \<Rightarrow> string \<Rightarrow> string \<Rightarrow> heap" where
  "h_renameKey h a from_key to_key = put_entries h a (renameKey (entries h a) from_key to_key)"

fun h_truthy :: "hval \<Rightarrow> bool" where
  "h_truthy HUndefined = False"
| "h_truthy HNull = False"
| "h_truthy (HBool b) = b"
| "h_truthy (HNum n) = (n \<noteq> 0)"
| "h_truthy (HStr s) = (s \<noteq> [])"
| "h_truthy (Ref a) = True"

fun h_nullish :: "hval \<Rightarrow> bool" where
  "h_nullish HUndefined = True"
| "h_nullish HNull = True"
| "h_nullish _ = False"

text \<open>\<^verbatim>\<open>key in x\<close>, \<^verbatim>\<open>x.key\<close> and \<^verbatim>\<open>delete x.key\<close> for a value \<^verbatim>\<open>x\<close>.\<close>

fun h_in :: "string \<Rightarrow> hval \<Rightarrow> heap \<Rightarrow> bool result" where
  "h_in k (Ref a) h =
     (case lookup h a of
        Some (HObj kvs) \<Rightarrow> Inr (js_has kvs k)
      | Some ob \<Rightarrow> Inr False
      | None \<Rightarrow> Inl TypeError)"
| "h_in k v h = Inl TypeError"

fun h_prop :: "heap \<Rightarrow> hval \<Rightarrow> string \<Rightarrow> hval" where
  "h_prop h (Ref a) k = h_get h a k"
| "h_prop h v k = HUndefined"

fun h_delete_prop :: "heap \<Rightarrow> hval \<Rightarrow> string \<Rightarrow> heap" where
  "h_delete_prop h (Ref a) k = h_delete h a k"
| "h_delete_prop h v k = h"

definition h_isPlainObject :: "heap \<Rightarrow> hval \<Rightarrow> bool" where
  "h_isPlainObject h v =
     (case v of Ref a \<Rightarrow> (case lookup h a of Some (HObj kvs) \<Rightarrow> True | _ \<Rightarrow> False) | _ \<Rightarrow> False)"

definition h_isArray :: "heap \<Rightarrow> hval \<Rightarrow> bool" where
  "h_isArray h v =
     (case v of Ref a \<Rightarrow> (case lookup h a of Some (HArr xs) \<Rightarrow> True | _ \<Rightarrow> False) | _ \<Rightarrow> False)"

definition h_elements :: "heap \<Rightarrow> hval \<Rightarrow> hval list" where
  "h_elements h v =
     (case v of Ref a \<Rightarrow> (case lookup h a of Some (HArr xs) \<Rightarrow> xs | _ \<Rightarrow> []) | _ \<Rightarrow> [])"

text \<open>
  \<^verbatim>\<open>xs.map(f)\<close> and \<^verbatim>\<open>keys.forEach(f)\<close> with a callback that reads and writes the store,
  and \<^verbatim>\<open>xs.some(p)\<close> with one that reads it.
\<close>

fun mapH :: "(hval \<Rightarrow> heap \<Rightarrow> hval stored) \<Rightarrow> hval list \<Rightarrow> heap \<Rightarrow> hval list stored" where
  "mapH f [] h = (Inr [], h)"
| "mapH f (x # xs) h =
     bindH (f x h) (\<lambda>y h1. bindH (mapH f xs h1) (\<lambda>ys h2. (Inr (y # ys), h2)))"

fun forEachH :: "('k \<Rightarrow> heap \<Rightarrow> unit stored) \<Rightarrow> 'k list \<Rightarrow> heap \<Rightarrow> unit stored" where
  "forEachH f [] h = (Inr (), h)"
| "forEachH f (k # ks) h = bindH (f k h) (\<lambda>u h1. forEachH f ks h1)"

fun some_result :: "('a \<Rightarrow> bool result) \<Rightarrow> 'a list \<Rightarrow> bool result" where
  "some_result p [] = Inr False"
| "some_result p (x # xs) = result_bind (p x) (\<lambda>b. if b then Inr True else some_result p xs)"

text \<open>
  The value that a stored value denotes, read to a given depth: what a constructor or a
  conversion of the runtime sees of its argument.
\<close>

fun readback :: "nat \<Rightarrow> heap \<Rightarrow> hval \<Rightarrow> jsval" where
  "readback depth h HUndefined = Undefined"
| "readback depth h HNull = Null"
| "readback depth h (HBool b) = Bool b"
| "readback depth h (HNum n) = Num n"
| "readback depth h (HStr s) = Str s"
| "readback 0 h (Ref a) = Undefined"
| "readback (Suc depth) h (Ref a) =
     (case lookup h a of
        None \<Rightarrow> Undefined
      | Some (HObjectId s) \<Rightarrow> ObjectId s
      | Some (HRegExp s) \<Rightarrow> RegExp s
      | Some (HArr xs) \<Rightarrow> Arr (map (readback depth h) xs)
      | Some (HObj kvs) \<Rightarrow> Obj (map (\<lambda>(k, v). (k, readback depth h v)) kvs))"

text \<open>
  \<^verbatim>\<open>convertObjectIds\<close> (lines 319-339): an array is mapped into a new array, the values
  of an object are replaced in the object itself.
\<close>

fun convertObjectIdsH :: "nat \<Rightarrow> hval \<Rightarrow> heap \<Rightarrow> hval stored" where
  "convertObjectIdsH 0 data h = (Inl RangeError, h)"
| "convertObjectIdsH (Suc stack) data h =
     (case data of
        Ref a \<Rightarrow>
          (case lookup h a of
             Some (HObjectId s) \<Rightarrow> (Inr data, h)
           | Some (HArr xs) \<Rightarrow>
               bindH (mapH (convertObjectIdsH stack) xs h) (\<lambda>ys h1.
                 (Inr (Ref (fst (alloc (HArr ys) h1))), snd (alloc (HArr ys) h1)))
           | Some (HObj kvs) \<Rightarrow>
               bindH
                 (forEachH
                    (\<lambda>k h1. bindH (convertObjectIdsH stack (h_get h1 a k) h1)
                               (\<lambda>v h2. (Inr (), h_set h2 a k v)))
                    (map fst kvs) h)
                 (\<lambda>u h1. (Inr data, h1))
           | _ \<Rightarrow> (Inr data, h))
      | HStr s \<Rightarrow>
          if is_hex24 s
          then (Inr (Ref (fst (alloc (HObjectId (toLowerCase s)) h))),
                snd (alloc (HObjectId (toLowerCase s)) h))
          else (Inr data, h)
      | _ \<Rightarrow> (Inr data, h))"

text \<open>\<^verbatim>\<open>Utils.hasNestedKey\<close>, as modelled above, on the store.\<close>

fun hasNestedKeyH :: "nat \<Rightarrow> heap \<Rightarrow> hval \<Rightarrow> string \<Rightarrow> bool result" where
  "hasNestedKeyH 0 h v key = Inl RangeError"
| "hasNestedKeyH (Suc stack) h v key =
     (case v of
        Ref a \<Rightarrow>
          (case lookup h a of
             Some (HArr xs) \<Rightarrow> some_result (\<lambda>x. hasNestedKeyH stack h x key) xs
           | Some (HObj kvs) \<Rightarrow>
               some_result (\<lambda>(k, x). if k = key then Inr True else hasNestedKeyH stack h x key) kvs
           | _ \<Rightarrow> Inr False)
      | _ \<Rightarrow> Inr False)"

text \<open>Line 228: the copy is a new object with the own properties of \<^verbatim>\<open>data\<close>.\<close>

definition object_assignH :: "heap \<Rightarrow> hval \<Rightarrow> (string \<times> hval) list" where
  "object_assignH h data =
     (case data of
        Ref a \<Rightarrow>
          (case lookup h a of
             Some (HObj kvs) \<Rightarrow> kvs
           | Some (HArr xs) \<Rightarrow> index_keys xs
           | _ \<Rightarrow> [])
      | HStr s \<Rightarrow> index_keys (map (\<lambda>c. HStr [c]) s)
      | _ \<Rightarrow> [])"

text \<open>
  The values \<^verbatim>\<open>x[0]\<close>, \<^verbatim>\<open>x[1]\<close>, ... below \<^verbatim>\<open>x.length\<close> that the loop of lines 242-253 reads
  from \<^verbatim>\<open>x = copiedData.$and\<close>: the elements of an array, and those of a plain object as
  \<^verbatim>\<open>indexed\<close> gives them. The loop writes to the key \<^verbatim>\<open>$fulltext\<close> only, so it finds them as
  they are listed before it.
\<close>

definition loop_branchesH :: "nat \<Rightarrow> heap \<Rightarrow> hval \<Rightarrow> hval list" where
  "loop_branchesH stack h x =
     (case x of
        Ref a \<Rightarrow>
          (case lookup h a of
             Some (HArr xs) \<Rightarrow> xs
           | Some (HObj kvs) \<Rightarrow>
               map (\<lambda>i. h_get h a (show_nat i))
                 [0 ..< indexed_count kvs (readback stack h (h_get h a ''length''))]
           | _ \<Rightarrow> [])
      | _ \<Rightarrow> [])"

text \<open>Lines 241-254, with \<^verbatim>\<open>c\<close> the address of the copy.\<close>

fun hoist_loopH :: "addr \<Rightarrow> hval list \<Rightarrow> heap \<Rightarrow> unit stored" where
  "hoist_loopH c [] h = (Inr (), h)"
| "hoist_loopH c (branch # rest) h =
     (case h_in ''$fulltext'' branch h of
        Inl e \<Rightarrow> (Inl e, h)
      | Inr found \<Rightarrow>
          if found then
            if h_has h c ''$fulltext'' then (Inl ConflictError, h)
            else hoist_loopH c rest
                   (h_delete_prop (h_set h c ''$fulltext'' (h_prop h branch ''$fulltext''))
                      branch ''$fulltext'')
          else hoist_loopH c rest h)"

definition hoistFulltextH :: "nat \<Rightarrow> addr \<Rightarrow> heap \<Rightarrow> unit stored" where
  "hoistFulltextH stack c h =
     (if h_truthy (h_get h c ''$and'') then
        (case h_get h c ''$and'' of
           Ref a \<Rightarrow> hoist_loopH c (loop_branchesH stack h (Ref a)) h
         | HStr s \<Rightarrow> (Inl TypeError, h)
         | _ \<Rightarrow> (Inr (), h))
      else (Inr (), h))"

text \<open>Lines 256-260.\<close>

definition moveFulltextH :: "addr \<Rightarrow> heap \<Rightarrow> heap" where
  "moveFulltextH c h =
     (if h_has h c ''$fulltext''
      then h_delete
             (h_set (snd (alloc (HObj [(''$search'', h_get h c ''$fulltext'')]) h)) c ''$text''
                (Ref (fst (alloc (HObj [(''$search'', h_get h c ''$fulltext'')]) h))))
             c ''$fulltext''
      else h)"

text \<open>The callback of lines 268-314, with \<^verbatim>\<open>rename\<close> for the recursive call.\<close>

type_synonym renamerH = "string \<Rightarrow> hval \<Rightarrow> bool \<Rightarrow> bool \<Rightarrow> heap \<Rightarrow> hval stored"

definition renameGroupH :: "renamerH \<Rightarrow> string \<Rightarrow> addr \<Rightarrow> string \<Rightarrow> heap \<Rightarrow> unit stored" where
  "renameGroupH rename entityName c k h =
     (if h_isArray h (h_get h c k)
      then bindH (mapH (\<lambda>v. rename entityName v False False) (h_elements h (h_get h c k)) h)
             (\<lambda>vs h1. (Inr (), h_set (snd (alloc (HArr vs) h1)) c k (Ref (fst (alloc (HArr vs) h1)))))
      else bindH (rename entityName (h_get h c k) False False h)
             (\<lambda>v h1. (Inr (), h_set h1 c k v)))"

definition renameEmbeddedH ::
  "renamerH \<Rightarrow> EntityProperty \<Rightarrow> bool \<Rightarrow> bool \<Rightarrow> addr \<Rightarrow> heap \<Rightarrow> unit stored" where
  "renameEmbeddedH rename p where' object' c h =
     (if array p \<and> h_isArray h (h_get h c (name p))
      then bindH
             (mapH (\<lambda>item. rename (type p) item where' True) (h_elements h (h_get h c (name p))) h)
             (\<lambda>items h1.
                (Inr (), h_set (snd (alloc (HArr items) h1)) c (name p)
                           (Ref (fst (alloc (HArr items) h1)))))
      else bindH (rename (type p) (h_get h c (name p)) where' (object p \<or> object') h)
             (\<lambda>v h1. (Inr (), h_set h1 c (name p) v)))"

definition convertRegExpH :: "nat \<Rightarrow> MongoDriver \<Rightarrow> addr \<Rightarrow> string \<Rightarrow> heap \<Rightarrow> unit stored" where
  "convertRegExpH stack drv c k h =
     (if h_isPlainObject h (h_get h c k) \<and> h_in ''$re'' (h_get h c k) h = Inr True
      then (case regexSource drv (readback stack h (h_prop h (h_get h c k) ''$re'')) of
              Inl e \<Rightarrow> (Inl e, h)
            | Inr source \<Rightarrow>
                (Inr (), h_set (snd (alloc (HRegExp source) h)) c k
                           (Ref (fst (alloc (HRegExp source) h)))))
      else (Inr (), h))"

definition finishPropertyH ::
  "nat \<Rightarrow> MongoDriver \<Rightarrow> EntityProperty \<Rightarrow> bool \<Rightarrow> addr \<Rightarrow> string \<Rightarrow> heap \<Rightarrow> unit stored" where
  "finishPropertyH stack drv p isObjectId c k h =
     bindH
       (if isObjectId
        then bindH (convertObjectIdsH stack (h_get h c k) h) (\<lambda>v h1. (Inr (), h_set h1 c k v))
        else (Inr (), h))
       (\<lambda>u h1. convertRegExpH stack drv c k
                (case fieldNames p of
                   Some names \<Rightarrow> h_renameKey h1 c k (property_key (index0 names))
                 | None \<Rightarrow> h1))"

definition renameEntryH ::
  "nat \<Rightarrow> renamerH \<Rightarrow> MongoDriver \<Rightarrow> string \<Rightarrow> EntityMetadata option \<Rightarrow> bool \<Rightarrow> bool \<Rightarrow>
   addr \<Rightarrow> string \<Rightarrow> heap \<Rightarrow> unit stored" where
  "renameEntryH stack rename drv entityName meta where' object' c k h =
     (if isGroupOperator k then renameGroupH rename entityName c k h
      else
        (case (case meta of None \<Rightarrow> None | Some m \<Rightarrow> properties m k) of
           None \<Rightarrow> convertRegExpH stack drv c k h
         | Some p \<Rightarrow>
             (case kind p of
                SCALAR \<Rightarrow> finishPropertyH stack drv p (toLowerCase (type p) = ''objectid'') c k h
              | EMBEDDED \<Rightarrow>
                  if h_nullish (h_get h c (name p)) then (Inr (), h)
                  else bindH (renameEmbeddedH rename p where' object' c h)
                         (\<lambda>u h1. finishPropertyH stack drv p False c k h1)
              | REFERENCE \<Rightarrow>
                  (case referenceIsObjectId drv p of
                     Inl e \<Rightarrow> (Inl e, h)
                   | Inr isObjectId \<Rightarrow> finishPropertyH stack drv p isObjectId c k h))))"

text \<open>
  Lines 228-237 and the call as a whole. \<^verbatim>\<open>inlineEmbeddables\<close> of the base class is the
  parameter \<^verbatim>\<open>inline\<close> here: it is given the address of the copy and gives the store after
  the call.
\<close>

type_synonym inlinerH = "EntityMetadata \<Rightarrow> addr \<Rightarrow> bool \<Rightarrow> heap \<Rightarrow> heap"

definition copyForHoistingH ::
  "MongoDriver \<Rightarrow> inlinerH \<Rightarrow> string \<Rightarrow> hval \<Rightarrow> bool \<Rightarrow> heap \<Rightarrow> heap" where
  "copyForHoistingH drv inline entityName data where' h =
     (let c = fst (alloc (HObj (object_assignH h data)) h);
          h1 = snd (alloc (HObj (object_assignH h data)) h);
          h2 = (case metadata drv entityName of
                  None \<Rightarrow> h1
                | Some m \<Rightarrow>
                    (case serializedPrimaryKey m of
                       None \<Rightarrow> h1
                     | Some spk \<Rightarrow>
                         if spk \<noteq> [] \<and> \<not> embeddable m \<and> Str spk \<noteq> index0 (primaryKeys m)
                         then h_renameKey h1 c spk (property_key (index0 (primaryKeys m)))
                         else h1))
      in case metadata drv entityName of
           None \<Rightarrow> h2
         | Some m \<Rightarrow> if \<not> embeddable m then inline m c where' h2 else h2)"

text \<open>Lines 228-260: the store before the guard of line 264; the copy is at \<^verbatim>\<open>length h\<close>.\<close>

definition prepareCopyH ::
  "nat \<Rightarrow> MongoDriver \<Rightarrow> inlinerH \<Rightarrow> string \<Rightarrow> hval \<Rightarrow> bool \<Rightarrow> heap \<Rightarrow> unit stored" where
  "prepareCopyH stack drv inline entityName data where' h =
     bindH (hoistFulltextH stack (length h) (copyForHoistingH drv inline entityName data where' h))
       (\<lambda>u h1. (Inr (), moveFulltextH (length h) h1))"

definition renameFields_callH ::
  "nat \<Rightarrow> renamerH \<Rightarrow> MongoDriver \<Rightarrow> inlinerH \<Rightarrow> string \<Rightarrow> hval \<Rightarrow> bool \<Rightarrow> bool \<Rightarrow> heap \<Rightarrow>
   hval stored" where
  "renameFields_callH stack rename drv inline entityName data where' object' h =
     bindH (prepareCopyH stack drv inline entityName data where' h) (\<lambda>u h2.
       case hasNestedKeyH stack h2 (Ref (length h)) ''$fulltext'' of
         Inl e \<Rightarrow> (Inl e, h2)
       | Inr nested \<Rightarrow>
           if nested then (Inl ValidationError, h2)
           else bindH
                  (forEachH
                     (renameEntryH stack rename drv entityName (metadata drv entityName)
                        where' object' (length h))
                     (map fst (entries h2 (length h))) h2)
                  (\<lambda>u h3. (Inr (Ref (length h)), h3)))"

fun renameFieldsH ::
  "nat \<Rightarrow> MongoDriver \<Rightarrow> inlinerH \<Rightarrow> string \<Rightarrow> hval \<Rightarrow> bool \<Rightarrow> bool \<Rightarrow> heap \<Rightarrow> hval stored" where
  "renameFieldsH 0 drv inline entityName data where' object' h = (Inl RangeError, h)"
| "renameFieldsH (Suc stack) drv inline entityName data where' object' h =
     renameFields_callH stack (renameFieldsH stack drv inline) drv inline entityName data where' object' h"

text \<open>The addresses a value and an object hold, and the addresses reached from a set.\<close>

fun vrefs :: "hval \<Rightarrow> addr set" where
  "vrefs (Ref a) = {a}"
| "vrefs v = {}"

fun orefs :: "hobj \<Rightarrow> addr set" where
  "orefs (HObj kvs) = (\<Union>v\<in>snd ` set kvs. vrefs v)"
| "orefs (HArr xs) = (\<Union>v\<in>set xs. vrefs v)"
| "orefs ob = {}"

inductive_set reachable :: "heap \<Rightarrow> addr set \<Rightarrow> addr set" for h :: heap and A :: "addr set" where
  start: "a \<in> A \<Longrightarrow> a \<in> reachable h A"
| step: "a \<in> reachable h A \<Longrightarrow> a < length h \<Longrightarrow> b \<in> orefs (h ! a) \<Longrightarrow> b \<in> reachable h A"

text \<open>
  What the proof of the frame asks of the base class: \<^verbatim>\<open>inlineEmbeddables\<close> writes to the
  document it is given, to objects reached from it and to objects it creates, and to no
  other. A set of addresses is closed when no object in it holds an address outside it.
\<close>

definition closed :: "addr set \<Rightarrow> heap \<Rightarrow> bool" where
  "closed S h = ((\<forall>a\<in>S. a < length h \<longrightarrow> orefs (h ! a) \<subseteq> S) \<and> (\<forall>a. length h \<le> a \<longrightarrow> a \<in> S))"

definition within :: "addr set \<Rightarrow> heap \<Rightarrow> heap \<Rightarrow> bool" where
  "within S h h' = (closed S h' \<and> length h \<le> length h' \<and> (\<forall>a. a \<notin> S \<longrightarrow> h' ! a = h ! a))"

definition inline_frame :: "inlinerH \<Rightarrow> bool" where
  "inline_frame inline =
     (\<forall>S meta c where' h. closed S h \<longrightarrow> c \<in> S \<longrightarrow> within S h (inline meta c where' h))"

text \<open>
  A call keeps to a set of addresses when the store it leaves, whether it returns or throws,
  differs from the store before only at addresses of the set, the set is closed in it, and
  the value it returns holds addresses of the set only.
\<close>

definition kept :: "addr set \<Rightarrow> heap \<Rightarrow> ('a \<Rightarrow> addr set) \<Rightarrow> 'a stored \<Rightarrow> bool" where
  "kept S h refs_of out = (within S h (snd out) \<and> (\<forall>x. fst out = Inr x \<longrightarrow> refs_of x \<subseteq> S))"

abbreviation keptU :: "addr set \<Rightarrow> heap \<Rightarrow> unit stored \<Rightarrow> bool" where
  "keptU S h out \<equiv> kept S h (\<lambda>u. {}) out"

abbreviation keptV :: "addr set \<Rightarrow> heap \<Rightarrow> hval stored \<Rightarrow> bool" where
  "keptV S h out \<equiv> kept S h vrefs out"

abbreviation keptL :: "addr set \<Rightarrow> heap \<Rightarrow> hval list stored \<Rightarrow> bool" where
  "keptL S h out \<equiv> kept S h (\<lambda>xs. \<Union>v\<in>set xs. vrefs v) out"



text \<open>
  A value is within reach of a stack of a given depth when no chain of nested objects and
  arrays that starts at it is longer than the stack: the depth search then ends.
\<close>

fun fits :: "nat \<Rightarrow> heap \<Rightarrow> hval \<Rightarrow> bool" where
  "fits 0 h v = False"
| "fits (Suc stack) h v =
     (case v of
        Ref a \<Rightarrow>
          (case lookup h a of
             Some (HArr xs) \<Rightarrow> list_all (fits stack h) xs
           | Some (HObj kvs) \<Rightarrow> list_all (\<lambda>(k, x). fits stack h x) kvs
           | _ \<Rightarrow> True)
      | _ \<Rightarrow> True)"

section \<open>An example schema\<close>

text \<open>
  A registry with three entities, for the concrete inputs below. \<^verbatim>\<open>Author\<close> has the primary
  key \<^verbatim>\<open>_id\<close> (an \<^verbatim>\<open>ObjectId\<close>) with the serialized alias \<^verbatim>\<open>id\<close>, the scalars \<^verbatim>\<open>name\<close>,
  \<^verbatim>\<open>age\<close> and \<^verbatim>\<open>email\<close> (stored as \<^verbatim>\<open>mail\<close>), the embedded \<^verbatim>\<open>address\<close> (stored as
  \<^verbatim>\<open>addr\<close>) and the lazy \<^verbatim>\<open>bio\<close>. \<^verbatim>\<open>Address\<close> is embeddable. \<^verbatim>\<open>Book\<close> has the primary
  key \<^verbatim>\<open>id\<close>, stored as \<^verbatim>\<open>_id\<close>, and \<^verbatim>\<open>Tag\<close> the primary key \<^verbatim>\<open>_id\<close>, a
  string. The base class leaves the example documents as they are, every pattern
  given as a string compiles, the cursor options add no filter, and the connection answers
  with three rows.
\<close>

definition scalarProperty :: "string \<Rightarrow> string \<Rightarrow> string \<Rightarrow> EntityProperty" where
  "scalarProperty n t f =
     \<lparr> name = n, kind = SCALAR, type = t, fieldNames = Some [f], array = False, object = False,
       lazy = False, formula = False, prop_serializedPrimaryKey = False \<rparr>"

definition AuthorMeta :: EntityMetadata where
  "AuthorMeta =
     \<lparr> props =
         [ scalarProperty ''_id'' ''ObjectId'' ''_id'',
           (scalarProperty ''id'' ''string'' ''id'') \<lparr> prop_serializedPrimaryKey := True \<rparr>,
           scalarProperty ''name'' ''string'' ''name'',
           scalarProperty ''age'' ''number'' ''age'',
           scalarProperty ''email'' ''string'' ''mail'',
           (scalarProperty ''address'' ''Address'' ''addr'') \<lparr> kind := EMBEDDED, object := True \<rparr>,
           (scalarProperty ''bio'' ''string'' ''bio'') \<lparr> lazy := True \<rparr> ],
       primaryKeys = [''_id''], serializedPrimaryKey = Some ''id'', embeddable = False,
       virtual = False, expression = None \<rparr>"

definition AddressMeta :: EntityMetadata where
  "AddressMeta =
     \<lparr> props = [scalarProperty ''city'' ''string'' ''city''],
       primaryKeys = [], serializedPrimaryKey = None, embeddable = True,
       virtual = False, expression = None \<rparr>"

definition BookMeta :: EntityMetadata where
  "BookMeta =
     \<lparr> props = [scalarProperty ''id'' ''ObjectId'' ''_id'', scalarProperty ''title'' ''string'' ''title''],
       primaryKeys = [''id''], serializedPrimaryKey = None, embeddable = False,
       virtual = False, expression = None \<rparr>"

definition TagMeta :: EntityMetadata where
  "TagMeta =
     \<lparr> props = [scalarProperty ''_id'' ''string'' ''_id'', scalarProperty ''label'' ''string'' ''label''],
       primaryKeys = [''_id''], serializedPrimaryKey = None, embeddable = False,
       virtual = False, expression = None \<rparr>"

definition exampleRows :: "jsval list" where
  "exampleRows = [Obj [(''_id'', Num 1)], Obj [(''_id'', Num 2)], Obj [(''_id'', Num 3)]]"

definition exampleDriver :: MongoDriver where
  "exampleDriver =
     \<lparr> metadata = (\<lambda>e. if e = ''Author'' then Some AuthorMeta
                       else if e = ''Address'' then Some AddressMeta
                       else if e = ''Book'' then Some BookMeta
                       else if e = ''Tag'' then Some TagMeta
                       else None),
       inlineEmbeddables = (\<lambda>meta copiedData where'. copiedData),
       regexSource = (\<lambda>v. case v of Str s \<Rightarrow> Inr s | _ \<Rightarrow> Inl SyntaxError),
       shouldHaveColumn = (\<lambda>p populate'. True),
       processCursorOptions = (\<lambda>meta options orderBy'. Inr (orderBy', Obj [])),
       connectionFind = (\<lambda>entityName where' orderBy' limit' offset' fields'. Inr exampleRows),
       mapResult = (\<lambda>r meta. r),
       superFindVirtual = (\<lambda>entityName where' options. Inl (Error ''Virtual entities are not supported'')) \<rparr>"

definition noOptions :: FindOptions where
  "noOptions =
     \<lparr> first_opt = Undefined, last_opt = Undefined, before = Undefined, after = Undefined,
       orderBy = Undefined, limit = Undefined, offset = Undefined, populate = None,
       fields_opt = None \<rparr>"

text \<open>
  Two stores for the calls below. In \<^verbatim>\<open>identifierStore\<close> the document at address 2 is
  \<^verbatim>\<open>{_id: {$in: ['507f1f77bcf86cd799439011']}, email: 'x'}\<close>; in \<^verbatim>\<open>fulltextStore\<close> the document
  at address 3 is \<^verbatim>\<open>{$and: [{age: 1}, {$fulltext: 'x'}]}\<close>. The base class leaves both as
  they are.
\<close>

definition identifierStore :: heap where
  "identifierStore =
     [HArr [HStr ''507f1f77bcf86cd799439011''],
      HObj [(''$in'', Ref 0)],
      HObj [(''_id'', Ref 1), (''email'', HStr ''x'')]]"

definition fulltextStore :: heap where
  "fulltextStore =
     [HObj [(''age'', HNum 1)],
      HObj [(''$fulltext'', HStr ''x'')],
      HArr [Ref 0, Ref 1],
      HObj [(''$and'', Ref 2)]]"

definition noInline :: inlinerH where
  "noInline meta c where' h = h"



definition sharedStore :: heap where
  "sharedStore =
     [HObj [(''$fulltext'', HStr ''x'')],
      HArr [Ref 0, Ref 0],
      HObj [(''$and'', Ref 1)]]"

definition arrayLikeStore :: heap where
  "arrayLikeStore =
     [HObj [(''$fulltext'', HStr ''x'')],
      HObj [(''0'', Ref 0), (''length'', HNum 1)],
      HObj [(''$and'', Ref 1)]]"

definition nestedStore :: heap where
  "nestedStore =
     [HObj [(''$fulltext'', HStr ''b'')],
      HArr [Ref 0],
      HObj [(''$and'', Ref 1)],
      HArr [Ref 2],
      HObj [(''name'', HStr ''x''), (''$or'', Ref 3)]]"


section \<open>Facts about documents and the steps of the rewriter\<close>

lemma result_bind_Inr:
  "result_bind m f = Inr y \<Longrightarrow> \<exists>x. m = Inr x \<and> f x = Inr y"
  by (cases m) auto

lemma js_has_map_of: "js_has c k = (map_of c k \<noteq> None)"
  by (simp add: js_has_def map_of_eq_None_iff)

lemma map_of_js_set [simp]: "map_of (js_set c k v) = (map_of c)(k \<mapsto> v)"
  by (simp add: js_set_def update_conv')

lemma map_of_js_delete [simp]: "map_of (js_delete c k) = (map_of c)(k := None)"
  by (simp add: js_delete_def delete_conv')

lemma js_has_js_set [simp]: "js_has (js_set c k v) k' = (k' = k \<or> js_has c k')"
  by (simp add: js_has_map_of)

lemma js_has_js_delete [simp]: "js_has (js_delete c k) k' = (k' \<noteq> k \<and> js_has c k')"
  by (simp add: js_has_map_of)

lemma map_of_rename_other:
  "k \<noteq> a \<Longrightarrow> k \<noteq> b \<Longrightarrow> map_of (map (\<lambda>(k, v). (if k = a then b else k, v)) c) k = map_of c k"
  by (induction c) auto

lemma map_of_renameKey_other:
  assumes "k \<noteq> a" "map_of c k = Some v"
  shows "map_of (renameKey c a b) k = Some v"
proof (cases "k = b")
  case True
  with assms show ?thesis by (simp add: renameKey_def js_has_map_of)
next
  case False
  with assms show ?thesis by (simp add: renameKey_def map_of_rename_other)
qed

lemma distinct_js_set [simp]: "distinct (map fst c) \<Longrightarrow> distinct (map fst (js_set c k v))"
  by (simp add: js_set_def distinct_update)

lemma distinct_js_delete [simp]: "distinct (map fst c) \<Longrightarrow> distinct (map fst (js_delete c k))"
  by (simp add: js_delete_def distinct_delete)

lemma map_fst_rename:
  "map fst (map (\<lambda>(k, v). (if k = a then b else k, v)) c) = map (\<lambda>k. if k = a then b else k) (map fst c)"
  by (induction c) auto

lemma distinct_renameKey [simp]:
  assumes "distinct (map fst c)"
  shows "distinct (map fst (renameKey c a b))"
proof (cases "js_has c a \<and> \<not> js_has c b")
  case True
  then have "b \<notin> set (map fst c)" by (simp add: js_has_def)
  then have "inj_on (\<lambda>k. if k = a then b else k) (set (map fst c))"
    by (auto simp: inj_on_def split: if_splits)
  moreover have "distinct (map (\<lambda>k. if k = a then b else k) (map fst c))
      = (distinct (map fst c) \<and> inj_on (\<lambda>k. if k = a then b else k) (set (map fst c)))"
    by (rule distinct_map)
  ultimately have "distinct (map (\<lambda>k. if k = a then b else k) (map fst c))"
    using assms by blast
  with True show ?thesis
    by (simp only: renameKey_def map_fst_rename if_True simp_thms)
next
  case False
  with assms show ?thesis by (auto simp: renameKey_def)
qed

lemma js_get_map_of: "map_of c k = Some v \<Longrightarrow> js_get c k = v"
  by (simp add: js_get_def)

lemma properties_name: "properties m k = Some p \<Longrightarrow> name p = k"
  by (auto simp: properties_def find_Some_iff)

subsection \<open>Entries that the loop over the keys leaves alone\<close>

lemma renameGroup_other:
  "renameGroup rename e c k' = Inr c' \<Longrightarrow> k' \<noteq> k \<Longrightarrow> map_of c' k = map_of c k"
  by (auto simp: renameGroup_def split: if_splits dest!: result_bind_Inr)

lemma convertRegExp_other:
  "convertRegExp drv c k' = Inr c' \<Longrightarrow> k' \<noteq> k \<Longrightarrow> map_of c' k = map_of c k"
  by (auto simp: convertRegExp_def split: if_splits dest!: result_bind_Inr)

lemma renameEmbedded_other:
  "renameEmbedded rename p w ob c = Inr c' \<Longrightarrow> name p \<noteq> k \<Longrightarrow> map_of c' k = map_of c k"
  by (auto simp: renameEmbedded_def split: if_splits dest!: result_bind_Inr)

lemma finishProperty_other:
  assumes "finishProperty drv p isOid c k' = Inr c'" "k' \<noteq> k" "map_of c k = Some v"
  shows "map_of c' k = Some v"
proof -
  define c1 where "c1 = (if isOid then js_set c k' (convertObjectIds (js_get c k')) else c)"
  define c2 where "c2 = (case fieldNames p of Some names \<Rightarrow> renameKey c1 k' (property_key (index0 names)) | None \<Rightarrow> c1)"
  have 1: "map_of c1 k = Some v" using assms by (simp add: c1_def)
  have 2: "map_of c2 k = Some v" using 1 assms(2)
    by (auto simp: c2_def map_of_renameKey_other split: option.splits)
  have "convertRegExp drv c2 k' = Inr c'"
    using assms(1) unfolding finishProperty_def c1_def c2_def Let_def .
  from convertRegExp_other[OF this assms(2)] 2 show ?thesis by simp
qed

lemma renameEntry_other:
  assumes "renameEntry rename drv e meta w ob c k' = Inr c'" "k' \<noteq> k" "map_of c k = Some v"
  shows "map_of c' k = Some v"
proof (cases "isGroupOperator k'")
  case True
  with assms show ?thesis by (simp add: renameEntry_def renameGroup_other)
next
  case False
  show ?thesis
  proof (cases "case meta of None \<Rightarrow> None | Some m \<Rightarrow> properties m k'")
    case None
    with assms False show ?thesis by (simp add: renameEntry_def convertRegExp_other)
  next
    case (Some p)
    then have n: "name p = k'" by (auto split: option.splits dest: properties_name)
    show ?thesis
    proof (cases "kind p")
      case SCALAR
      with assms False Some show ?thesis
        by (auto simp: renameEntry_def intro: finishProperty_other)
    next
      case EMBEDDED
      with assms False Some n show ?thesis
        by (auto simp: renameEntry_def renameEmbedded_other split: if_splits
            dest!: result_bind_Inr intro: finishProperty_other)
    next
      case REFERENCE
      with assms False Some show ?thesis
        by (auto simp: renameEntry_def dest!: result_bind_Inr intro: finishProperty_other)
    qed
  qed
qed

lemma forEach_keeps:
  assumes "forEach_result (renameEntry rename drv e meta w ob) ks c = Inr c'"
    and "map_of c k = Some v"
    and "\<And>c c'. map_of c k = Some v \<Longrightarrow> renameEntry rename drv e meta w ob c k = Inr c' \<Longrightarrow> map_of c' k = Some v"
  shows "map_of c' k = Some v"
  using assms(1,2)
proof (induction ks arbitrary: c)
  case Nil
  then show ?case by simp
next
  case (Cons a ks)
  from Cons.prems(1) obtain c1 where s: "renameEntry rename drv e meta w ob c a = Inr c1"
    and r: "forEach_result (renameEntry rename drv e meta w ob) ks c1 = Inr c'"
    by (auto dest!: result_bind_Inr)
  have "map_of c1 k = Some v"
  proof (cases "a = k")
    case True
    with s Cons.prems(2) assms(3) show ?thesis by blast
  next
    case False
    from renameEntry_other[OF s False Cons.prems(2)] show ?thesis .
  qed
  with Cons.IH r show ?case by blast
qed

subsection \<open>The hoisting step\<close>

lemma hoist_loop_other:
  "hoist_loop c bs = Inr (c', bs') \<Longrightarrow> k \<noteq> ''$fulltext'' \<Longrightarrow> map_of c' k = map_of c k"
proof (induction bs arbitrary: c c' bs')
  case Nil
  then show ?case by simp
next
  case (Cons b bs)
  then show ?case
    by (fastforce split: if_splits dest!: result_bind_Inr)
qed

lemma hoistFulltext_other:
  assumes "hoistFulltext c = Inr c'" "k \<noteq> ''$fulltext''" "k \<noteq> ''$and''"
  shows "map_of c' k = map_of c k"
  using assms
  by (auto simp: hoistFulltext_def split: if_splits jsval.splits
      dest!: result_bind_Inr dest: hoist_loop_other)

lemma moveFulltext_other:
  "k \<noteq> ''$fulltext'' \<Longrightarrow> k \<noteq> ''$text'' \<Longrightarrow> map_of (moveFulltext c) k = map_of c k"
  by (simp add: moveFulltext_def)


lemma renameEntry_embedded_null:
  assumes "properties meta k = Some p" "kind p = EMBEDDED" "\<not> isGroupOperator k"
    and "map_of c k = Some v" "is_nullish v"
  shows "renameEntry rename drv e (Some meta) w ob c k = Inr c"
  using assms by (simp add: renameEntry_def properties_name js_get_map_of)




subsection \<open>Keys stay distinct\<close>




subsection \<open>Keys that occur nowhere\<close>


lemma hasNestedKey_Arr:
  "hasNestedKey (Arr xs) key = (\<exists>x\<in>set xs. hasNestedKey x key)"
  by (simp add: list_ex_iff)

declare hasNestedKey.simps(1,2) [simp del]







lemma hasNestedKey_elements:
  "\<not> hasNestedKey v key \<Longrightarrow> x \<in> set (elements v) \<Longrightarrow> \<not> hasNestedKey x key"
  by (cases v) (auto simp: hasNestedKey_Arr)
















section \<open>Facts about the store\<close>

subsection \<open>Writes that stay within a closed set of addresses\<close>

lemma within_refl: "closed S h \<Longrightarrow> within S h h"
  by (simp add: within_def)

lemma within_trans: "within S h h1 \<Longrightarrow> within S h1 h2 \<Longrightarrow> within S h h2"
  by (auto simp: within_def)

lemma within_closed: "within S h h' \<Longrightarrow> closed S h'"
  by (simp add: within_def)

lemma closed_fresh: "closed S h \<Longrightarrow> length h \<in> S"
  by (simp add: closed_def)

lemma closed_outside: "closed S h \<Longrightarrow> a \<notin> S \<Longrightarrow> a < length h"
  by (auto simp: closed_def not_le[symmetric])

lemma within_alloc:
  assumes "closed S h" "orefs ob \<subseteq> S"
  shows "within S h (snd (alloc ob h))" and "fst (alloc ob h) \<in> S"
proof -
  have "closed S (h @ [ob])"
    unfolding closed_def
  proof (intro conjI ballI allI impI)
    fix a assume "a \<in> S" "a < length (h @ [ob])"
    then show "orefs ((h @ [ob]) ! a) \<subseteq> S"
      using assms by (cases "a < length h") (auto simp: closed_def nth_append)
  next
    fix a assume "length (h @ [ob]) \<le> a"
    then show "a \<in> S" using assms(1) by (simp add: closed_def)
  qed
  moreover have "(h @ [ob]) ! a = h ! a" if "a \<notin> S" for a
    using closed_outside[OF assms(1) that] by (simp add: nth_append)
  ultimately show "within S h (snd (alloc ob h))"
    by (simp add: within_def alloc_def)
  show "fst (alloc ob h) \<in> S"
    using assms(1) by (simp add: alloc_def closed_fresh)
qed

lemma within_put_entries:
  assumes "closed S h" "a \<in> S" "\<forall>v\<in>snd ` set kvs. vrefs v \<subseteq> S"
  shows "within S h (put_entries h a kvs)"
proof (cases "\<exists>old. lookup h a = Some (HObj old)")
  case False
  then have "put_entries h a kvs = h"
    by (auto simp: put_entries_def split: option.splits hobj.splits)
  with assms(1) show ?thesis by (simp add: within_refl)
next
  case True
  then have p: "put_entries h a kvs = h[a := HObj kvs]" and a: "a < length h"
    by (auto simp: put_entries_def lookup_def split: if_splits)
  have "closed S (h[a := HObj kvs])"
    unfolding closed_def
  proof (intro conjI ballI allI impI)
    fix b assume "b \<in> S" "b < length (h[a := HObj kvs])"
    then show "orefs (h[a := HObj kvs] ! b) \<subseteq> S"
      using assms by (cases "b = a") (auto simp: closed_def)
  next
    fix b assume "length (h[a := HObj kvs]) \<le> b"
    then show "b \<in> S" using assms(1) by (simp add: closed_def)
  qed
  moreover have "h[a := HObj kvs] ! b = h ! b" if "b \<notin> S" for b
  proof -
    from that assms(2) have "a \<noteq> b" by auto
    then show ?thesis by simp
  qed
  ultimately show ?thesis by (simp add: within_def p)
qed

lemma entries_refs:
  assumes "closed S h" "a \<in> S" "v \<in> snd ` set (entries h a)"
  shows "vrefs v \<subseteq> S"
proof -
  from assms(3) obtain kvs where "lookup h a = Some (HObj kvs)" "v \<in> snd ` set kvs"
    by (cases "lookup h a") (auto simp: entries_def split: hobj.splits)
  then have a: "a < length h" "h ! a = HObj kvs" and v: "vrefs v \<subseteq> orefs (HObj kvs)"
    by (auto simp: lookup_def split: if_splits)
  from assms(1,2) a(1) have "orefs (h ! a) \<subseteq> S" by (simp add: closed_def)
  with a(2) v show ?thesis by simp
qed

lemma h_get_refs:
  assumes "closed S h" "a \<in> S"
  shows "vrefs (h_get h a k) \<subseteq> S"
proof (cases "map_of (entries h a) k")
  case None
  then show ?thesis by (simp add: h_get_def)
next
  case (Some v)
  then have "v \<in> snd ` set (entries h a)"
    by (force dest: map_of_SomeD)
  from entries_refs[OF assms this] Some show ?thesis by (simp add: h_get_def)
qed

lemma h_prop_refs:
  "closed S h \<Longrightarrow> vrefs v \<subseteq> S \<Longrightarrow> vrefs (h_prop h v k) \<subseteq> S"
  by (cases v) (auto dest: h_get_refs)

lemma h_elements_refs:
  assumes "closed S h" "vrefs v \<subseteq> S" "x \<in> set (h_elements h v)"
  shows "vrefs x \<subseteq> S"
proof -
  from assms(3) obtain a where v: "v = Ref a"
    by (cases v) (auto simp: h_elements_def)
  with assms(3) obtain xs where "lookup h a = Some (HArr xs)" "x \<in> set xs"
    by (cases "lookup h a") (auto simp: h_elements_def split: hobj.splits)
  with v have "v = Ref a" "lookup h a = Some (HArr xs)" "x \<in> set xs"
    by simp_all
  then have a: "a < length h" "h ! a = HArr xs" "a \<in> S" and x: "vrefs x \<subseteq> orefs (HArr xs)"
    using assms(2) by (auto simp: lookup_def split: if_splits)
  from assms(1) a(1,3) have "orefs (h ! a) \<subseteq> S" by (simp add: closed_def)
  with a(2) x show ?thesis by simp
qed

lemma loop_branchesH_refs:
  assumes "closed S h" "vrefs v \<subseteq> S" "x \<in> set (loop_branchesH stack h v)"
  shows "vrefs x \<subseteq> S"
proof -
  from assms(3) obtain a where v: "v = Ref a"
    by (cases v) (auto simp: loop_branchesH_def)
  with assms(2) have a: "a \<in> S" by simp
  from assms(3) v obtain ob where ob: "lookup h a = Some ob"
    by (cases "lookup h a") (auto simp: loop_branchesH_def)
  show ?thesis
  proof (cases ob)
    case (HArr xs)
    with assms(3) v ob have "x \<in> set (h_elements h v)"
      by (simp add: loop_branchesH_def h_elements_def)
    from h_elements_refs[OF assms(1,2) this] show ?thesis .
  next
    case (HObj kvs)
    with assms(3) v ob obtain i where "x = h_get h a (show_nat i)"
      by (auto simp: loop_branchesH_def)
    with h_get_refs[OF assms(1) a] show ?thesis by simp
  qed (use assms(3) v ob in \<open>simp_all add: loop_branchesH_def\<close>)
qed

lemma object_assignH_refs:
  assumes "closed S h" "vrefs data \<subseteq> S" "v \<in> snd ` set (object_assignH h data)"
  shows "vrefs v \<subseteq> S"
proof (cases data)
  case (Ref a)
  show ?thesis
  proof (cases "lookup h a")
    case None
    with assms(3) Ref show ?thesis by (simp add: object_assignH_def)
  next
    case (Some ob)
    then have a: "a < length h" "h ! a = ob" by (auto simp: lookup_def split: if_splits)
    from assms(3) Ref Some have v: "vrefs v \<subseteq> orefs ob"
      by (cases ob) (auto simp: object_assignH_def index_keys_def dest!: set_zip_rightD)
    from assms(1,2) Ref a(1) have "orefs (h ! a) \<subseteq> S" by (simp add: closed_def)
    with a(2) v show ?thesis by simp
  qed
next
  case (HStr s)
  with assms(3) show ?thesis
    by (auto simp: object_assignH_def index_keys_def dest!: set_zip_rightD)
qed (use assms(3) in \<open>auto simp: object_assignH_def\<close>)

lemma set_js_set_snd: "snd ` set (js_set c k v) \<subseteq> insert v (snd ` set c)"
  unfolding js_set_def by (induction c) auto

lemma set_js_delete_snd: "snd ` set (js_delete c k) \<subseteq> snd ` set c"
  unfolding js_delete_def by (induction c) auto

lemma set_renameKey_snd: "snd ` set (renameKey c a b) \<subseteq> snd ` set c"
  by (auto simp: renameKey_def split_beta image_image)

lemma within_h_set:
  assumes "closed S h" "a \<in> S" "vrefs v \<subseteq> S"
  shows "within S h (h_set h a k v)"
  unfolding h_set_def
  using set_js_set_snd[of "entries h a" k v] entries_refs[OF assms(1,2)] assms(3)
  by (intro within_put_entries assms(1,2)) blast

lemma within_h_delete:
  assumes "closed S h" "a \<in> S"
  shows "within S h (h_delete h a k)"
  unfolding h_delete_def
  using set_js_delete_snd[of "entries h a" k] entries_refs[OF assms(1,2)]
  by (intro within_put_entries assms(1,2)) blast

lemma within_h_renameKey:
  assumes "closed S h" "a \<in> S"
  shows "within S h (h_renameKey h a k k')"
  unfolding h_renameKey_def
  using set_renameKey_snd[of "entries h a" k k'] entries_refs[OF assms(1,2)]
  by (intro within_put_entries assms(1,2)) blast

lemma within_h_delete_prop:
  "closed S h \<Longrightarrow> vrefs v \<subseteq> S \<Longrightarrow> within S h (h_delete_prop h v k)"
  by (cases v) (auto simp: within_h_delete within_refl)

subsection \<open>The rules of composition\<close>

lemma kept_throw: "closed S h \<Longrightarrow> kept S h refs_of (Inl e, h)"
  by (simp add: kept_def within_refl)

lemma kept_return: "within S h h' \<Longrightarrow> refs_of x \<subseteq> S \<Longrightarrow> kept S h refs_of (Inr x, h')"
  by (simp add: kept_def)

lemma kept_after: "within S h h1 \<Longrightarrow> kept S h1 refs_of out \<Longrightarrow> kept S h refs_of out"
  by (auto simp: kept_def intro: within_trans)

lemma kept_bind:
  assumes "kept S h refs_of m"
    and "\<And>x h1. m = (Inr x, h1) \<Longrightarrow> within S h h1 \<Longrightarrow> refs_of x \<subseteq> S
           \<Longrightarrow> kept S h1 refs_of' (f x h1)"
  shows "kept S h refs_of' (bindH m f)"
proof (cases m)
  case (Pair res h1)
  show ?thesis
  proof (cases res)
    case (Inl e)
    with Pair assms(1) show ?thesis by (simp add: kept_def)
  next
    case (Inr x)
    with Pair assms(1) have w: "within S h h1" "refs_of x \<subseteq> S" by (simp_all add: kept_def)
    from assms(2)[OF _ w] Pair Inr have "kept S h1 refs_of' (f x h1)" by simp
    with Pair Inr w(1) show ?thesis by (simp add: kept_after)
  qed
qed

lemma kept_case:
  assumes "closed S h" "\<And>x. r = Inr x \<Longrightarrow> kept S h refs_of (f x)"
  shows "kept S h refs_of (case r of Inl e \<Rightarrow> (Inl e, h) | Inr x \<Rightarrow> f x)"
  using assms by (cases r) (simp_all add: kept_throw)

lemma kept_if:
  "(b \<Longrightarrow> kept S h refs_of x) \<Longrightarrow> (\<not> b \<Longrightarrow> kept S h refs_of y)
   \<Longrightarrow> kept S h refs_of (if b then x else y)"
  by simp

lemma keptL_mapH:
  assumes "\<And>x h. closed S h \<Longrightarrow> vrefs x \<subseteq> S \<Longrightarrow> keptV S h (f x h)"
  shows "closed S h \<Longrightarrow> \<forall>x\<in>set xs. vrefs x \<subseteq> S \<Longrightarrow> keptL S h (mapH f xs h)"
proof (induction xs arbitrary: h)
  case Nil
  then show ?case by (simp add: kept_return within_refl)
next
  case (Cons x xs)
  show ?case
    unfolding mapH.simps
  proof (rule kept_bind[where refs_of = vrefs])
    show "keptV S h (f x h)" using assms Cons.prems by simp
  next
    fix y h1 assume y: "within S h h1" "vrefs y \<subseteq> S"
    show "keptL S h1 (bindH (mapH f xs h1) (\<lambda>ys h2. (Inr (y # ys), h2)))"
    proof (rule kept_bind[where refs_of = "\<lambda>xs. \<Union>v\<in>set xs. vrefs v"])
      show "keptL S h1 (mapH f xs h1)"
        using Cons.IH[OF within_closed[OF y(1)]] Cons.prems(2) by simp
    next
      fix ys h2 assume "within S h1 h2" "(\<Union>v\<in>set ys. vrefs v) \<subseteq> S"
      with y(2) show "keptL S h2 (Inr (y # ys), h2)"
        by (simp add: kept_def within_refl within_closed)
    qed
  qed
qed

lemma keptU_forEachH:
  assumes "\<And>h k. closed S h \<Longrightarrow> keptU S h (f k h)"
  shows "closed S h \<Longrightarrow> keptU S h (forEachH f ks h)"
proof (induction ks arbitrary: h)
  case Nil
  then show ?case by (simp add: kept_return within_refl)
next
  case (Cons k ks)
  show ?case
    unfolding forEachH.simps
    by (rule kept_bind[where refs_of = "\<lambda>u. {}"])
       (use assms Cons in \<open>auto intro: within_closed\<close>)
qed

subsection \<open>The normalizer writes within a closed set\<close>

lemma keptV_alloc:
  assumes "closed S h" "orefs ob \<subseteq> S"
  shows "keptV S h (Inr (Ref (fst (alloc ob h))), snd (alloc ob h))"
  using within_alloc[OF assms] by (simp add: kept_return)

lemma keptU_store_value:
  assumes "closed S h" "c \<in> S" "keptV S h m"
  shows "keptU S h (bindH m (\<lambda>v h1. (Inr (), h_set h1 c k v)))"
proof (rule kept_bind[where refs_of = vrefs])
  show "keptV S h m" by (rule assms(3))
next
  fix v h1
  assume "within S h h1" "vrefs v \<subseteq> S"
  then show "keptU S h1 (Inr (), h_set h1 c k v)"
    by (simp add: kept_return within_h_set within_closed assms(2))
qed

lemma keptV_convertObjectIdsH:
  "closed S h \<Longrightarrow> vrefs data \<subseteq> S \<Longrightarrow> keptV S h (convertObjectIdsH stack data h)"
proof (induction stack arbitrary: data h)
  case 0
  then show ?case by (simp add: kept_throw)
next
  case (Suc stack)
  have same: "keptV S h (Inr data, h)"
    using Suc.prems by (simp add: kept_def within_refl)
  show ?case
  proof (cases data)
    case (Ref a)
    with Suc.prems have a: "a \<in> S" by simp
    show ?thesis
    proof (cases "lookup h a")
      case None
      with Ref same show ?thesis by simp
    next
      case (Some ob)
      show ?thesis
      proof (cases ob)
        case (HObj kvs)
        have step: "keptU S h1 (bindH (convertObjectIdsH stack (h_get h1 a k) h1)
                      (\<lambda>v h2. (Inr (), h_set h2 a k v)))" if "closed S h1" for h1 k
          using that a Suc.IH[OF that h_get_refs[OF that a]] by (rule keptU_store_value)
        have "keptV S h (bindH
                 (forEachH
                    (\<lambda>k h1. bindH (convertObjectIdsH stack (h_get h1 a k) h1)
                               (\<lambda>v h2. (Inr (), h_set h2 a k v)))
                    (map fst kvs) h)
                 (\<lambda>u h1. (Inr data, h1)))"
        proof (rule kept_bind[where refs_of = "\<lambda>u. {}"])
          show "keptU S h (forEachH
                    (\<lambda>k h1. bindH (convertObjectIdsH stack (h_get h1 a k) h1)
                               (\<lambda>v h2. (Inr (), h_set h2 a k v)))
                    (map fst kvs) h)"
            using step Suc.prems(1) by (rule keptU_forEachH)
        next
          fix u :: unit and h1 assume "within S h h1"
          then show "keptV S h1 (Inr data, h1)"
            using Suc.prems(2) by (simp add: kept_return within_refl within_closed)
        qed
        with Ref Some HObj show ?thesis by simp
      next
        case (HArr xs)
        have xs: "\<forall>x\<in>set xs. vrefs x \<subseteq> S"
          using h_elements_refs[OF Suc.prems(1), of data] Suc.prems(2) Ref Some HArr
          by (simp add: h_elements_def)
        have "keptV S h (bindH (mapH (convertObjectIdsH stack) xs h) (\<lambda>ys h1.
                 (Inr (Ref (fst (alloc (HArr ys) h1))), snd (alloc (HArr ys) h1))))"
        proof (rule kept_bind[where refs_of = "\<lambda>xs. \<Union>v\<in>set xs. vrefs v"])
          show "keptL S h (mapH (convertObjectIdsH stack) xs h)"
            using Suc.IH Suc.prems(1) xs by (rule keptL_mapH)
        next
          fix ys h1
          assume "within S h h1" "(\<Union>v\<in>set ys. vrefs v) \<subseteq> S"
          then show "keptV S h1 (Inr (Ref (fst (alloc (HArr ys) h1))), snd (alloc (HArr ys) h1))"
            by (intro keptV_alloc within_closed) auto
        qed
        with Ref Some HArr show ?thesis by simp
      next
        case (HObjectId s)
        with Ref Some same show ?thesis by simp
      next
        case (HRegExp s)
        with Ref Some same show ?thesis by simp
      qed
    qed
  next
    case (HStr s)
    show ?thesis
    proof (cases "is_hex24 s")
      case True
      have "orefs (HObjectId (toLowerCase s)) \<subseteq> S" by simp
      from keptV_alloc[OF Suc.prems(1) this] HStr True show ?thesis by simp
    next
      case False
      with HStr same show ?thesis by simp
    qed
  qed (use same in simp_all)
qed

subsection \<open>The hoisting step writes within a closed set\<close>

lemma keptU_hoist_loopH:
  "closed S h \<Longrightarrow> c \<in> S \<Longrightarrow> \<forall>b\<in>set bs. vrefs b \<subseteq> S \<Longrightarrow> keptU S h (hoist_loopH c bs h)"
proof (induction bs arbitrary: h)
  case Nil
  then show ?case by (simp add: kept_return within_refl)
next
  case (Cons b bs)
  have b: "vrefs b \<subseteq> S" using Cons.prems(3) by simp
  show ?case
    unfolding hoist_loopH.simps
  proof (rule kept_case[OF Cons.prems(1)], intro kept_if)
    show "keptU S h (Inl ConflictError, h)"
      using Cons.prems(1) by (rule kept_throw)
  next
    let ?h1 = "h_set h c ''$fulltext'' (h_prop h b ''$fulltext'')"
    let ?h2 = "h_delete_prop ?h1 b ''$fulltext''"
    have 1: "within S h ?h1"
      using Cons.prems(1,2) by (intro within_h_set h_prop_refs b)
    have 2: "within S ?h1 ?h2"
      using within_closed[OF 1] b by (rule within_h_delete_prop)
    have "keptU S ?h2 (hoist_loopH c bs ?h2)"
      using Cons.IH[OF within_closed[OF 2] Cons.prems(2)] Cons.prems(3) by simp
    then show "keptU S h (hoist_loopH c bs ?h2)"
      using within_trans[OF 1 2] by (rule kept_after[rotated])
  next
    show "keptU S h (hoist_loopH c bs h)"
      using Cons.IH[OF Cons.prems(1,2)] Cons.prems(3) by simp
  qed
qed

lemma keptU_hoistFulltextH:
  assumes "closed S h" "c \<in> S"
  shows "keptU S h (hoistFulltextH stack c h)"
proof (cases "h_get h c ''$and''")
  case (Ref a)
  have "\<forall>b\<in>set (loop_branchesH stack h (Ref a)). vrefs b \<subseteq> S"
    using loop_branchesH_refs[OF assms(1), of "Ref a"] h_get_refs[OF assms, of "''$and''"] Ref by auto
  from keptU_hoist_loopH[OF assms this] Ref show ?thesis
    by (simp add: hoistFulltextH_def)
qed (use assms(1) in \<open>simp_all add: hoistFulltextH_def kept_return kept_throw within_refl\<close>)

lemma within_moveFulltextH:
  assumes "closed S h" "c \<in> S"
  shows "within S h (moveFulltextH c h)"
proof (cases "h_has h c ''$fulltext''")
  case False
  with assms(1) show ?thesis by (simp add: moveFulltextH_def within_refl)
next
  case True
  let ?ob = "HObj [(''$search'', h_get h c ''$fulltext'')]"
  have "orefs ?ob \<subseteq> S" using h_get_refs[OF assms] by simp
  note a = within_alloc[OF assms(1) this]
  have 1: "within S (snd (alloc ?ob h)) (h_set (snd (alloc ?ob h)) c ''$text'' (Ref (fst (alloc ?ob h))))"
    using within_closed[OF a(1)] assms(2) a(2) by (intro within_h_set) auto
  have 2: "within S (h_set (snd (alloc ?ob h)) c ''$text'' (Ref (fst (alloc ?ob h))))
      (h_delete (h_set (snd (alloc ?ob h)) c ''$text'' (Ref (fst (alloc ?ob h)))) c ''$fulltext'')"
    using within_closed[OF 1] assms(2) by (rule within_h_delete)
  from within_trans[OF a(1) within_trans[OF 1 2]] True show ?thesis
    by (simp add: moveFulltextH_def)
qed

subsection \<open>The loop over the keys writes within a closed set\<close>

lemma keptU_set_alloc:
  assumes "closed S h" "c \<in> S" "orefs ob \<subseteq> S"
  shows "keptU S h (Inr (), h_set (snd (alloc ob h)) c k (Ref (fst (alloc ob h))))"
proof -
  note a = within_alloc[OF assms(1,3)]
  have "within S (snd (alloc ob h)) (h_set (snd (alloc ob h)) c k (Ref (fst (alloc ob h))))"
    using within_closed[OF a(1)] assms(2) a(2) by (intro within_h_set) auto
  from within_trans[OF a(1) this] show ?thesis by (simp add: kept_return)
qed

lemma keptU_store_array:
  assumes "closed S h" "c \<in> S" "\<forall>x\<in>set xs. vrefs x \<subseteq> S"
    and "\<And>x h. closed S h \<Longrightarrow> vrefs x \<subseteq> S \<Longrightarrow> keptV S h (f x h)"
  shows "keptU S h (bindH (mapH f xs h)
           (\<lambda>vs h1. (Inr (), h_set (snd (alloc (HArr vs) h1)) c k (Ref (fst (alloc (HArr vs) h1))))))"
proof (rule kept_bind[where refs_of = "\<lambda>xs. \<Union>v\<in>set xs. vrefs v"])
  show "keptL S h (mapH f xs h)"
    using assms(4,1,3) by (rule keptL_mapH)
next
  fix vs h1
  assume "within S h h1" "(\<Union>v\<in>set vs. vrefs v) \<subseteq> S"
  then show "keptU S h1 (Inr (), h_set (snd (alloc (HArr vs) h1)) c k (Ref (fst (alloc (HArr vs) h1))))"
    using assms(2) by (intro keptU_set_alloc within_closed) auto
qed

lemma keptU_renameGroupH:
  assumes "closed S h" "c \<in> S"
    and "\<And>e v w ob h. closed S h \<Longrightarrow> vrefs v \<subseteq> S \<Longrightarrow> keptV S h (rename e v w ob h)"
  shows "keptU S h (renameGroupH rename entityName c k h)"
proof -
  note g = h_get_refs[OF assms(1,2), of k]
  have "\<forall>x\<in>set (h_elements h (h_get h c k)). vrefs x \<subseteq> S"
    using h_elements_refs[OF assms(1) g] by blast
  then show ?thesis
    unfolding renameGroupH_def
    by (intro kept_if keptU_store_array keptU_store_value assms g)
qed

lemma keptU_renameEmbeddedH:
  assumes "closed S h" "c \<in> S"
    and "\<And>e v w ob h. closed S h \<Longrightarrow> vrefs v \<subseteq> S \<Longrightarrow> keptV S h (rename e v w ob h)"
  shows "keptU S h (renameEmbeddedH rename p where' object' c h)"
proof -
  note g = h_get_refs[OF assms(1,2), of "name p"]
  have "\<forall>x\<in>set (h_elements h (h_get h c (name p))). vrefs x \<subseteq> S"
    using h_elements_refs[OF assms(1) g] by blast
  then show ?thesis
    unfolding renameEmbeddedH_def
    by (intro kept_if keptU_store_array keptU_store_value assms g)
qed

lemma keptU_convertRegExpH:
  assumes "closed S h" "c \<in> S"
  shows "keptU S h (convertRegExpH stack drv c k h)"
  unfolding convertRegExpH_def
  by (intro kept_if kept_case keptU_set_alloc assms)
     (simp_all add: assms kept_return within_refl)

lemma keptU_finishPropertyH:
  assumes "closed S h" "c \<in> S"
  shows "keptU S h (finishPropertyH stack drv p isObjectId c k h)"
  unfolding finishPropertyH_def
proof (rule kept_bind[where refs_of = "\<lambda>u. {}"])
  show "keptU S h (if isObjectId
        then bindH (convertObjectIdsH stack (h_get h c k) h) (\<lambda>v h1. (Inr (), h_set h1 c k v))
        else (Inr (), h))"
    by (intro kept_if keptU_store_value keptV_convertObjectIdsH h_get_refs assms)
       (simp add: assms kept_return within_refl)
next
  fix u :: unit and h1 assume w: "within S h h1"
  let ?h2 = "case fieldNames p of Some names \<Rightarrow> h_renameKey h1 c k (property_key (index0 names))
             | None \<Rightarrow> h1"
  have 2: "within S h1 ?h2"
    using within_closed[OF w] assms(2)
    by (auto split: option.splits intro: within_h_renameKey within_refl)
  have "keptU S ?h2 (convertRegExpH stack drv c k ?h2)"
    using within_closed[OF 2] assms(2) by (rule keptU_convertRegExpH)
  with 2 show "keptU S h1 (convertRegExpH stack drv c k ?h2)"
    by (rule kept_after)
qed

lemma keptU_renameEntryH:
  assumes "closed S h" "c \<in> S"
    and "\<And>e v w ob h. closed S h \<Longrightarrow> vrefs v \<subseteq> S \<Longrightarrow> keptV S h (rename e v w ob h)"
  shows "keptU S h (renameEntryH stack rename drv entityName meta where' object' c k h)"
proof (cases "isGroupOperator k")
  case True
  with keptU_renameGroupH[OF assms] show ?thesis by (simp add: renameEntryH_def)
next
  case False
  show ?thesis
  proof (cases "case meta of None \<Rightarrow> None | Some m \<Rightarrow> properties m k")
    case None
    with False keptU_convertRegExpH[OF assms(1,2)] show ?thesis by (simp add: renameEntryH_def)
  next
    case (Some p)
    have e: "keptU S h (bindH (renameEmbeddedH rename p where' object' c h)
                         (\<lambda>u h1. finishPropertyH stack drv p False c k h1))"
      by (rule kept_bind[where refs_of = "\<lambda>u. {}"])
         (auto intro: keptU_renameEmbeddedH keptU_finishPropertyH assms within_closed)
    have r: "keptU S h (case referenceIsObjectId drv p of
                     Inl e \<Rightarrow> (Inl e, h)
                   | Inr isObjectId \<Rightarrow> finishPropertyH stack drv p isObjectId c k h)"
      by (intro kept_case keptU_finishPropertyH assms)
    from False Some e r keptU_finishPropertyH[OF assms(1,2)] assms(1) show ?thesis
      by (cases "kind p") (simp_all add: renameEntryH_def kept_return within_refl)
  qed
qed

subsection \<open>A call writes within a closed set\<close>

lemma within_copyForHoistingH:
  assumes "closed S h" "\<forall>v\<in>snd ` set (object_assignH h data). vrefs v \<subseteq> S" "inline_frame inline"
  shows "within S h (copyForHoistingH drv inline entityName data where' h)"
proof -
  let ?ob = "HObj (object_assignH h data)"
  have "orefs ?ob \<subseteq> S" using assms(2) by auto
  note a = within_alloc[OF assms(1) this]
  have c: "fst (alloc ?ob h) = length h" by (simp add: alloc_def)
  define h2 where "h2 = (case metadata drv entityName of
                  None \<Rightarrow> snd (alloc ?ob h)
                | Some m \<Rightarrow>
                    (case serializedPrimaryKey m of
                       None \<Rightarrow> snd (alloc ?ob h)
                     | Some spk \<Rightarrow>
                         if spk \<noteq> [] \<and> \<not> embeddable m \<and> Str spk \<noteq> index0 (primaryKeys m)
                         then h_renameKey (snd (alloc ?ob h)) (fst (alloc ?ob h)) spk (property_key (index0 (primaryKeys m)))
                         else snd (alloc ?ob h)))"
  have "within S (snd (alloc ?ob h)) h2"
    unfolding h2_def using within_closed[OF a(1)] a(2)
    by (auto split: option.splits intro: within_h_renameKey within_refl)
  from within_trans[OF a(1) this] have 2: "within S h h2" .
  have 3: "within S h2 (case metadata drv entityName of
           None \<Rightarrow> h2
         | Some m \<Rightarrow> if \<not> embeddable m then inline m (fst (alloc ?ob h)) where' h2 else h2)"
    using within_closed[OF 2] a(2) assms(3)
    by (auto simp: inline_frame_def split: option.splits intro: within_refl)
  from within_trans[OF 2 3] show ?thesis
    unfolding copyForHoistingH_def Let_def h2_def .
qed

lemma keptU_prepareCopyH:
  assumes "closed S h" "\<forall>v\<in>snd ` set (object_assignH h data). vrefs v \<subseteq> S" "inline_frame inline"
  shows "keptU S h (prepareCopyH stack drv inline entityName data where' h)"
proof -
  let ?h0 = "copyForHoistingH drv inline entityName data where' h"
  have c: "length h \<in> S" using assms(1) by (rule closed_fresh)
  have 0: "within S h ?h0" using assms by (rule within_copyForHoistingH)
  have "keptU S ?h0 (bindH (hoistFulltextH stack (length h) ?h0)
       (\<lambda>u h1. (Inr (), moveFulltextH (length h) h1)))"
  proof (rule kept_bind[where refs_of = "\<lambda>u. {}"])
    show "keptU S ?h0 (hoistFulltextH stack (length h) ?h0)"
      using within_closed[OF 0] c by (rule keptU_hoistFulltextH)
  next
    fix u :: unit and h1 assume "within S ?h0 h1"
    then show "keptU S h1 (Inr (), moveFulltextH (length h) h1)"
      using c by (simp add: kept_return within_moveFulltextH within_closed)
  qed
  with 0 show ?thesis
    unfolding prepareCopyH_def by (rule kept_after)
qed

lemma keptV_renameFields_callH:
  assumes "closed S h" "\<forall>v\<in>snd ` set (object_assignH h data). vrefs v \<subseteq> S" "inline_frame inline"
    and "\<And>e v w ob h. closed S h \<Longrightarrow> vrefs v \<subseteq> S \<Longrightarrow> keptV S h (rename e v w ob h)"
  shows "keptV S h (renameFields_callH stack rename drv inline entityName data where' object' h)"
  unfolding renameFields_callH_def
proof (rule kept_bind[where refs_of = "\<lambda>u. {}"])
  show "keptU S h (prepareCopyH stack drv inline entityName data where' h)"
    using assms(1-3) by (rule keptU_prepareCopyH)
next
  fix u :: unit and h2 assume 2: "within S h h2"
  have c: "length h \<in> S" using assms(1) by (rule closed_fresh)
  have "keptV S h2 (bindH
                  (forEachH
                     (renameEntryH stack rename drv entityName (metadata drv entityName)
                        where' object' (length h))
                     (map fst (entries h2 (length h))) h2)
                  (\<lambda>u h3. (Inr (Ref (length h)), h3)))"
  proof (rule kept_bind[where refs_of = "\<lambda>u. {}"])
    show "keptU S h2 (forEachH
                     (renameEntryH stack rename drv entityName (metadata drv entityName)
                        where' object' (length h))
                     (map fst (entries h2 (length h))) h2)"
      by (rule keptU_forEachH[OF _ within_closed[OF 2]]) (rule keptU_renameEntryH[OF _ c assms(4)])
  next
    fix u :: unit and h3 assume "within S h2 h3"
    then show "keptV S h3 (Inr (Ref (length h)), h3)"
      using c by (simp add: kept_return within_refl within_closed)
  qed
  then show "keptV S h2 (case hasNestedKeyH stack h2 (Ref (length h)) ''$fulltext'' of
         Inl e \<Rightarrow> (Inl e, h2)
       | Inr nested \<Rightarrow>
           if nested then (Inl ValidationError, h2)
           else bindH
                  (forEachH
                     (renameEntryH stack rename drv entityName (metadata drv entityName)
                        where' object' (length h))
                     (map fst (entries h2 (length h))) h2)
                  (\<lambda>u h3. (Inr (Ref (length h)), h3)))"
    using within_closed[OF 2] by (intro kept_case kept_if) (simp_all add: kept_throw)
qed

lemma keptV_renameFieldsH:
  "closed S h \<Longrightarrow> vrefs data \<subseteq> S \<Longrightarrow> inline_frame inline
   \<Longrightarrow> keptV S h (renameFieldsH stack drv inline entityName data where' object' h)"
proof (induction stack arbitrary: h data entityName where' object')
  case 0
  then show ?case by (simp add: kept_throw)
next
  case (Suc stack)
  have "\<forall>v\<in>snd ` set (object_assignH h data). vrefs v \<subseteq> S"
    using object_assignH_refs[OF Suc.prems(1,2)] by blast
  from keptV_renameFields_callH[OF Suc.prems(1) this Suc.prems(3), of "renameFieldsH stack drv inline"]
    Suc.IH[OF _ _ Suc.prems(3)]
  show ?case by simp
qed

lemma closed_reachable:
  "closed (reachable h A \<union> {a. length h \<le> a}) h"
  unfolding closed_def
proof (intro conjI ballI allI impI)
  fix a assume "a \<in> reachable h A \<union> {a. length h \<le> a}" "a < length h"
  then have "a \<in> reachable h A" by auto
  then show "orefs (h ! a) \<subseteq> reachable h A \<union> {a. length h \<le> a}"
    using \<open>a < length h\<close> by (auto intro: reachable.step)
qed simp

lemma reachable_subset:
  assumes "A \<subseteq> T" "\<forall>a\<in>T. a < length h \<longrightarrow> orefs (h ! a) \<subseteq> T"
  shows "reachable h A \<subseteq> T"
proof
  fix a assume "a \<in> reachable h A"
  then show "a \<in> T"
    by (induction rule: reachable.induct) (use assms in auto)
qed

lemma inline_frame_noInline: "inline_frame noInline"
  by (simp add: inline_frame_def noInline_def within_refl)

text \<open>
  A call of \<^verbatim>\<open>renameFields\<close> on a document, whether it returns or throws, writes to the
  objects reached from the values of the document and to objects it creates, and to no
  other.
\<close>

lemma renameFieldsH_frame:
  assumes "inline_frame inline" "lookup h a = Some ob"
  shows "within (reachable h (orefs ob) \<union> {b. length h \<le> b}) h
           (snd (renameFieldsH stack drv inline entityName (Ref a) where' object' h))"
proof (cases stack)
  case 0
  then show ?thesis by (simp add: within_refl closed_reachable)
next
  case (Suc stack')
  let ?S = "reachable h (orefs ob) \<union> {b. length h \<le> b}"
  have S: "closed ?S h" by (rule closed_reachable)
  have "\<forall>v\<in>snd ` set (object_assignH h (Ref a)). vrefs v \<subseteq> ?S"
  proof
    fix v assume "v \<in> snd ` set (object_assignH h (Ref a))"
    with assms(2) have "vrefs v \<subseteq> orefs ob"
      by (cases ob) (auto simp: object_assignH_def index_keys_def dest!: set_zip_rightD)
    then show "vrefs v \<subseteq> ?S" by (auto intro: reachable.start)
  qed
  from keptV_renameFields_callH[OF S this assms(1), of "renameFieldsH stack' drv inline"
      stack' drv entityName where' object'] keptV_renameFieldsH[OF _ _ assms(1)]
  show ?thesis by (simp add: Suc kept_def)
qed

subsection \<open>The hoisting loop and objects held more than once\<close>

lemma bindH_Inr:
  "bindH m f = (Inr y, h') \<Longrightarrow> \<exists>x h1. m = (Inr x, h1) \<and> f x h1 = (Inr y, h')"
  by (cases m; cases "fst m") auto


lemma length_put_entries [simp]: "length (put_entries h a kvs) = length h"
  by (simp add: put_entries_def split: option.splits hobj.splits)


















subsection \<open>The depth search and the objects that are reached\<close>

lemma reachable_empty [simp]: "reachable h {} = {}"
proof -
  have "False" if "a \<in> reachable h {}" for a
    using that by (induction rule: reachable.induct) auto
  then show ?thesis by auto
qed

lemma reachable_UN: "reachable h (\<Union>x\<in>X. f x) = (\<Union>x\<in>X. reachable h (f x))"
proof (intro equalityI subsetI)
  fix a assume "a \<in> reachable h (\<Union>x\<in>X. f x)"
  then show "a \<in> (\<Union>x\<in>X. reachable h (f x))"
    by (induction rule: reachable.induct) (auto intro: reachable.intros)
next
  fix a assume "a \<in> (\<Union>x\<in>X. reachable h (f x))"
  then obtain x where x: "x \<in> X" "a \<in> reachable h (f x)" by auto
  from x(2) show "a \<in> reachable h (\<Union>x\<in>X. f x)"
    by (induction rule: reachable.induct) (use x(1) in \<open>auto intro: reachable.intros\<close>)
qed

lemma reachable_single:
  "reachable h {a} = insert a (if a < length h then reachable h (orefs (h ! a)) else {})"
proof (intro equalityI subsetI)
  fix b assume "b \<in> reachable h {a}"
  then show "b \<in> insert a (if a < length h then reachable h (orefs (h ! a)) else {})"
  proof (induction rule: reachable.induct)
    case (start b)
    then show ?case by simp
  next
    case (step b' b)
    then show ?case by (auto intro: reachable.intros split: if_splits)
  qed
next
  fix b assume b: "b \<in> insert a (if a < length h then reachable h (orefs (h ! a)) else {})"
  show "b \<in> reachable h {a}"
  proof (cases "b = a")
    case True
    then show ?thesis by (simp add: reachable.start)
  next
    case False
    with b have a: "a < length h" and "b \<in> reachable h (orefs (h ! a))"
      by (auto split: if_splits)
    from this(2) show ?thesis
    proof (induction rule: reachable.induct)
      case (start b)
      with a show ?case by (auto intro: reachable.step[OF reachable.start])
    next
      case (step b' b)
      then show ?case by (auto intro: reachable.step)
    qed
  qed
qed

lemma some_result_all:
  "\<forall>x\<in>set xs. p x = Inr (P x) \<Longrightarrow> some_result p xs = Inr (\<exists>x\<in>set xs. P x)"
  by (induction xs) auto

lemma hasNestedKeyH_reachable:
  "fits stack h v \<Longrightarrow>
   hasNestedKeyH stack h v key = Inr (\<exists>b\<in>reachable h (vrefs v). h_has h b key)"
proof (induction stack arbitrary: v)
  case 0
  then show ?case by simp
next
  case (Suc stack)
  show ?case
  proof (cases v)
    case (Ref a)
    show ?thesis
    proof (cases "lookup h a")
      case None
      then have "reachable h {a} = {a}" "\<not> h_has h a key"
        by (auto simp: reachable_single lookup_def h_has_def entries_def js_has_def split: if_splits)
      with Ref None show ?thesis by simp
    next
      case (Some ob)
      then have a: "a < length h" "h ! a = ob" by (auto simp: lookup_def split: if_splits)
      show ?thesis
      proof (cases ob)
        case (HObj kvs)
        have r: "reachable h {a} = insert a (\<Union>(k, x)\<in>set kvs. reachable h (vrefs x))"
          using a HObj reachable_UN[where h = h and X = "snd ` set kvs" and f = vrefs]
          by (auto simp: reachable_single)
        have top: "h_has h a key = (key \<in> fst ` set kvs)"
          using Some HObj by (simp add: h_has_def entries_def js_has_def)
        have "\<forall>(k, x)\<in>set kvs.
            (if k = key then Inr True else hasNestedKeyH stack h x key)
              = Inr (k = key \<or> (\<exists>b\<in>reachable h (vrefs x). h_has h b key))"
          using Suc.prems Ref Some HObj Suc.IH by (auto simp: list_all_iff)
        then have "some_result (\<lambda>(k, x). if k = key then Inr True else hasNestedKeyH stack h x key) kvs
            = Inr (\<exists>(k, x)\<in>set kvs. k = key \<or> (\<exists>b\<in>reachable h (vrefs x). h_has h b key))"
          using some_result_all[of kvs "\<lambda>(k, x). if k = key then Inr True else hasNestedKeyH stack h x key"
              "\<lambda>(k, x). k = key \<or> (\<exists>b\<in>reachable h (vrefs x). h_has h b key)"]
          by (auto simp: split_beta)
        moreover have "(\<exists>(k, x)\<in>set kvs. k = key \<or> (\<exists>b\<in>reachable h (vrefs x). h_has h b key))
            = (\<exists>b\<in>reachable h {a}. h_has h b key)"
          unfolding r using top by force
        ultimately show ?thesis using Ref Some HObj by simp
      next
        case (HArr xs)
        have r: "reachable h {a} = insert a (\<Union>x\<in>set xs. reachable h (vrefs x))"
          using a HArr reachable_UN[where h = h and X = "set xs" and f = vrefs] by (auto simp: reachable_single)
        have top: "\<not> h_has h a key"
          using Some HArr by (simp add: h_has_def entries_def js_has_def)
        have "\<forall>x\<in>set xs. hasNestedKeyH stack h x key = Inr (\<exists>b\<in>reachable h (vrefs x). h_has h b key)"
          using Suc.prems Ref Some HArr Suc.IH by (auto simp: list_all_iff)
        from some_result_all[OF this] r top Ref Some HArr show ?thesis by auto
      next
        case (HObjectId s)
        with a Some have "reachable h {a} = {a}" "\<not> h_has h a key"
          by (auto simp: reachable_single h_has_def entries_def js_has_def)
        with Ref Some HObjectId show ?thesis by simp
      next
        case (HRegExp s)
        with a Some have "reachable h {a} = {a}" "\<not> h_has h a key"
          by (auto simp: reachable_single h_has_def entries_def js_has_def)
        with Ref Some HRegExp show ?thesis by simp
      qed
    qed
  qed simp_all
qed

lemma reachable_mono: "A \<subseteq> B \<Longrightarrow> reachable h A \<subseteq> reachable h B"
proof
  fix a assume "A \<subseteq> B" "a \<in> reachable h A"
  from this(2,1) show "a \<in> reachable h B"
    by (induction rule: reachable.induct) (auto intro: reachable.intros)
qed


subsection \<open>Examples\<close>

text \<open>
  An object held at both positions of \<^verbatim>\<open>$and\<close> is met with the key once: the loop deletes
  the key on the first visit, and the call returns a document. A plain object with a
  \<^verbatim>\<open>length\<close> under \<^verbatim>\<open>$and\<close> is looped over like an array. On the stores of the examples
  the call returns the document that the rewriter on values returns.
\<close>

lemma shared_branch_example:
  "renameFieldsH 8 exampleDriver noInline ''Author'' (Ref 2) True False sharedStore
     = (Inr (Ref 3),
        [HObj [],
         HArr [Ref 0, Ref 0],
         HObj [(''$and'', Ref 1)],
         HObj [(''$and'', Ref 7), (''$text'', Ref 4)],
         HObj [(''$search'', HStr ''x'')],
         HObj [],
         HObj [],
         HArr [Ref 5, Ref 6]])"
  by code_simp

lemma array_like_example:
  "renameFieldsH 8 exampleDriver noInline ''Author'' (Ref 2) True False arrayLikeStore
     = (Inr (Ref 3),
        [HObj [],
         HObj [(''0'', Ref 0), (''length'', HNum 1)],
         HObj [(''$and'', Ref 1)],
         HObj [(''$and'', Ref 5), (''$text'', Ref 4)],
         HObj [(''$search'', HStr ''x'')],
         HObj [(''0'', Ref 0), (''length'', HNum 1)]])"
  "renameFields 8 exampleDriver ''Author''
     (Obj [(''$and'', Obj [(''0'', Obj [(''$fulltext'', Str ''x'')]), (''length'', Num 1)])]) True False
     = Inr (Obj [(''$and'', Obj [(''0'', Obj []), (''length'', Num 1)]),
                 (''$text'', Obj [(''$search'', Str ''x'')])])"
  by code_simp+


lemma store_agrees_with_values:
  "map_sum id (readback 8 (snd (renameFieldsH 8 exampleDriver noInline ''Author'' (Ref 2) True False identifierStore)))
     (fst (renameFieldsH 8 exampleDriver noInline ''Author'' (Ref 2) True False identifierStore))
     = renameFields 8 exampleDriver ''Author'' (readback 8 identifierStore (Ref 2)) True False"
  "map_sum id (readback 8 (snd (renameFieldsH 8 exampleDriver noInline ''Author'' (Ref 3) True False fulltextStore)))
     (fst (renameFieldsH 8 exampleDriver noInline ''Author'' (Ref 3) True False fulltextStore))
     = renameFields 8 exampleDriver ''Author'' (readback 8 fulltextStore (Ref 3)) True False"
  by code_simp+

section \<open>The claims\<close>

subsection \<open>The identifier normalizer\<close>

text \<open>
  C6. The identifier normalizer is idempotent on every value. An identifier instance is
  returned as it is; a string of 24 hexadecimal digits becomes the identifier that
  \<^verbatim>\<open>new ObjectId\<close> builds from it, and any other string is returned as it is; every other
  scalar is returned as it is; an array is normalized element by element and an object value
  by value, under the same keys.
\<close>

theorem convertObjectIds_idempotent:
  "convertObjectIds (convertObjectIds v) = convertObjectIds v
   \<and> convertObjectIds (ObjectId s) = ObjectId s
   \<and> convertObjectIds (Str s) = (if is_hex24 s then ObjectId (toLowerCase s) else Str s)
   \<and> new_ObjectId s = (if is_hex24 s then Inr (convertObjectIds (Str s)) else Inl BSONError)
   \<and> convertObjectIds Undefined = Undefined
   \<and> convertObjectIds Null = Null
   \<and> convertObjectIds (Bool b) = Bool b
   \<and> convertObjectIds (Num n) = Num n
   \<and> convertObjectIds (RegExp source) = RegExp source
   \<and> convertObjectIds (Arr xs) = Arr (map convertObjectIds xs)
   \<and> convertObjectIds (Obj kvs) = Obj (map (\<lambda>(k, x). (k, convertObjectIds x)) kvs)"
proof -
  have "convertObjectIds (convertObjectIds v) = convertObjectIds v"
    by (induction v rule: convertObjectIds.induct) auto
  then show ?thesis by (simp add: new_ObjectId_def)
qed

subsection \<open>The field rewriter\<close>













text \<open>
  C5. After the hoisting and restructuring steps (lines 239-260), when \<^verbatim>\<open>$fulltext\<close> is still a
  key of an object below the top level of the copy (an object reached from a value of the
  copy, at any depth), \<^verbatim>\<open>renameFields\<close> fails with the error of line 265, whose message says
  that full text search is only supported on the top level of the query object, and returns
  no document; the store is as the two steps left it. The stack is as deep as the copy is
  nested, so that the depth search ends.
\<close>

theorem renameFieldsH_nested_fulltext:
  assumes "prepareCopyH stack drv inline entityName data where' h = (Inr (), h2)"
    and "lookup h2 (length h) = Some (HObj cs)"
    and "(k, x) \<in> set cs" "b \<in> reachable h2 (vrefs x)" "h_has h2 b ''$fulltext''"
    and "fits stack h2 (Ref (length h))"
  shows "renameFieldsH (Suc stack) drv inline entityName data where' object' h
           = (Inl ValidationError, h2)"
proof -
  from assms(2) have c: "length h < length h2" "h2 ! length h = HObj cs"
    by (auto simp: lookup_def split: if_splits)
  have "vrefs x \<subseteq> orefs (HObj cs)" using assms(3) by force
  from reachable_mono[OF this] assms(4) have "b \<in> reachable h2 (orefs (h2 ! length h))"
    using c(2) by auto
  then have "b \<in> reachable h2 (vrefs (Ref (length h)))"
    using c(1) by (simp add: reachable_single)
  with assms(5) have "hasNestedKeyH stack h2 (Ref (length h)) ''$fulltext'' = Inr True"
    using hasNestedKeyH_reachable[OF assms(6), of "''$fulltext''"] by auto
  then show ?thesis
    by (simp add: renameFields_callH_def assms(1))
qed

theorem renameFieldsH_nested_fulltext_witness:
  "renameFieldsH 7 exampleDriver noInline ''Author'' (Ref 4) True False nestedStore
     = (Inl (Error ''Full text search is only supported on the top level of the query object.''),
        nestedStore @ [HObj [(''name'', HStr ''x''), (''$or'', Ref 3)]])"
proof -
  let ?h2 = "nestedStore @ [HObj [(''name'', HStr ''x''), (''$or'', Ref 3)]]"
  have p: "prepareCopyH 6 exampleDriver noInline ''Author'' (Ref 4) True nestedStore = (Inr (), ?h2)"
    by code_simp
  have l: "lookup ?h2 (length nestedStore) = Some (HObj [(''name'', HStr ''x''), (''$or'', Ref 3)])"
    by code_simp
  have m: "(''$or'', Ref 3) \<in> set [(''name'', HStr ''x''), (''$or'', Ref 3)]"
    by simp
  have "3 \<in> reachable ?h2 (vrefs (Ref 3))"
    by (rule reachable.start) simp
  then have "2 \<in> reachable ?h2 (vrefs (Ref 3))"
    by (rule reachable.step) (simp_all add: nestedStore_def)
  then have "1 \<in> reachable ?h2 (vrefs (Ref 3))"
    by (rule reachable.step) (simp_all add: nestedStore_def)
  then have r: "0 \<in> reachable ?h2 (vrefs (Ref 3))"
    by (rule reachable.step) (simp_all add: nestedStore_def)
  have k: "h_has ?h2 0 ''$fulltext''"
    by code_simp
  have f: "fits 6 ?h2 (Ref (length nestedStore))"
    by code_simp
  have "(7::nat) = Suc 6" by simp
  with renameFieldsH_nested_fulltext[OF p l m r k f, of False]
  show ?thesis by (simp only: ValidationError_def)
qed


text \<open>
  C10. For a property of kind Embedded whose key the copy maps to \<^verbatim>\<open>null\<close> or
  \<^verbatim>\<open>undefined\<close> when the hoisting step is reached, \<^verbatim>\<open>renameFields\<close> leaves the entry as it
  is: the returned document maps the logical name to the same value; the key is not renamed
  to the physical field name. The reserved keys \<^verbatim>\<open>$and\<close>, \<^verbatim>\<open>$or\<close>, \<^verbatim>\<open>$fulltext\<close> and
  \<^verbatim>\<open>$text\<close> are no property names.
\<close>

theorem renameFields_embedded_null:
  assumes "metadata drv entityName = Some meta" "properties meta k = Some p" "kind p = EMBEDDED"
    and "k \<notin> {''$and'', ''$or'', ''$fulltext'', ''$text''}"
    and "map_of (copyForHoisting drv entityName data where') k = Some v" "is_nullish v"
    and "renameFields (Suc stack) drv entityName data where' object' = Inr r"
  shows "\<exists>kvs. r = Obj kvs \<and> map_of kvs k = Some v"
proof -
  from assms(7) obtain c0 c1 where
    h: "hoistFulltext (copyForHoisting drv entityName data where') = Inr c0"
    and l: "forEach_result (renameEntry (renameFields stack drv) drv entityName (Some meta) where' object')
              (map fst (moveFulltext c0)) (moveFulltext c0) = Inr c1"
    and r: "r = Obj c1"
    by (auto simp: renameFields_call_def prepareCopy_def assms(1) split: if_splits dest!: result_bind_Inr)
  have g: "\<not> isGroupOperator k" using assms(4) by (simp add: isGroupOperator_def)
  have "map_of c0 k = Some v"
    using hoistFulltext_other[OF h, of k] assms(4,5) by simp
  then have "map_of (moveFulltext c0) k = Some v"
    using moveFulltext_other[of k c0] assms(4) by simp
  from forEach_keeps[OF l this] have "map_of c1 k = Some v"
    using renameEntry_embedded_null[OF assms(2,3) g _ assms(6)] by simp
  with r show ?thesis by simp
qed

theorem renameFields_embedded_null_witness:
  "\<exists>kvs. renameFields 2 exampleDriver ''Author''
            (Obj [(''address'', Null), (''email'', Str ''x'')]) True False = Inr (Obj kvs)
         \<and> map_of kvs ''address'' = Some Null \<and> \<not> js_has kvs ''addr''"
proof -
  have r: "renameFields (Suc 1) exampleDriver ''Author''
            (Obj [(''address'', Null), (''email'', Str ''x'')]) True False
          = Inr (Obj [(''address'', Null), (''mail'', Str ''x'')])"
    by code_simp
  have m: "metadata exampleDriver ''Author'' = Some AuthorMeta"
    by (simp add: exampleDriver_def)
  have p: "properties AuthorMeta ''address''
    = Some ((scalarProperty ''address'' ''Address'' ''addr'') \<lparr> kind := EMBEDDED, object := True \<rparr>)"
    by code_simp
  have c: "map_of (copyForHoisting exampleDriver ''Author''
            (Obj [(''address'', Null), (''email'', Str ''x'')]) True) ''address'' = Some Null"
    by code_simp
  from renameFields_embedded_null[OF m p _ _ c _ r]
  have "\<exists>kvs. Obj [(''address'', Null), (''mail'', Str ''x'')] = Obj kvs \<and> map_of kvs ''address'' = Some Null"
    by simp
  with r show ?thesis by (auto simp: js_has_def numeral_2_eq_2)
qed

subsection \<open>The facade and the projection\<close>

text \<open>
  C8. For an entity whose first primary key is a property stored under its physical field
  name \<^verbatim>\<open>_id\<close> (the name the store gives to the primary key), \<^verbatim>\<open>findOne\<close> (when the
  entity is not virtual), \<^verbatim>\<open>nativeUpdate\<close> and \<^verbatim>\<open>nativeDelete\<close> replace a filter that is a bare
  identifier string by the document with the single entry that maps the physical field name
  of the primary key to the normalized identifier: the native identifier built from the
  string exactly when the type of the primary key is \<^verbatim>\<open>objectid\<close> in any case of letters
  (the string is then one that \<^verbatim>\<open>new ObjectId\<close> accepts), and the string itself otherwise.
  It is this document that each of the three hands to \<^verbatim>\<open>renameFields\<close>.
\<close>

theorem buildFilterById_document:
  assumes "metadata drv entityName = Some meta"
    and "properties meta (property_key (index0 (primaryKeys meta))) = Some pk"
    and "fieldNames pk = Some (f # fs)" "f = ''_id''"
    and "toLowerCase (type pk) = ''objectid'' \<longrightarrow> is_hex24 s"
    and "document = Obj [(f, if toLowerCase (type pk) = ''objectid''
                             then ObjectId (toLowerCase s) else Str s)]"
  shows "findOne_where drv entityName (Str s) = Inr document
       \<and> nativeUpdate_where drv entityName (Str s) = Inr document
       \<and> nativeDelete_where drv entityName (Str s) = Inr document
       \<and> findOne_filter stack drv entityName (Str s)
           = renameFields stack drv entityName document True False
       \<and> nativeUpdate_filter stack drv entityName (Str s)
           = renameFields stack drv entityName document True False
       \<and> nativeDelete_filter stack drv entityName (Str s)
           = renameFields stack drv entityName document True False"
  using assms
  by (simp add: buildFilterById_def new_ObjectId_def isPrimaryKey_def
      findOne_where_def nativeUpdate_where_def nativeDelete_where_def
      findOne_filter_def nativeUpdate_filter_def nativeDelete_filter_def)

theorem buildFilterById_document_witness:
  "findOne_where exampleDriver ''Author'' (Str ''507F1f77bcf86cd799439011'')
     = Inr (Obj [(''_id'', ObjectId ''507f1f77bcf86cd799439011'')])
   \<and> nativeUpdate_where exampleDriver ''Author'' (Str ''507F1f77bcf86cd799439011'')
     = Inr (Obj [(''_id'', ObjectId ''507f1f77bcf86cd799439011'')])
   \<and> nativeDelete_where exampleDriver ''Author'' (Str ''507F1f77bcf86cd799439011'')
     = Inr (Obj [(''_id'', ObjectId ''507f1f77bcf86cd799439011'')])
   \<and> findOne_filter 2 exampleDriver ''Author'' (Str ''507F1f77bcf86cd799439011'')
     = Inr (Obj [(''_id'', ObjectId ''507f1f77bcf86cd799439011'')])
   \<and> nativeDelete_where exampleDriver ''Tag'' (Str ''507F1f77bcf86cd799439011'')
     = Inr (Obj [(''_id'', Str ''507F1f77bcf86cd799439011'')])"
proof -
  have m: "metadata exampleDriver ''Author'' = Some AuthorMeta"
    by (simp add: exampleDriver_def)
  have p: "properties AuthorMeta (property_key (index0 (primaryKeys AuthorMeta)))
    = Some (scalarProperty ''_id'' ''ObjectId'' ''_id'')"
    by code_simp
  have f: "fieldNames (scalarProperty ''_id'' ''ObjectId'' ''_id'') = Some (''_id'' # [])"
    by (simp add: scalarProperty_def)
  have t: "toLowerCase (type (scalarProperty ''_id'' ''ObjectId'' ''_id'')) = ''objectid''"
    by code_simp
  have h: "is_hex24 ''507F1f77bcf86cd799439011''"
    by code_simp
  have l: "toLowerCase ''507F1f77bcf86cd799439011'' = ''507f1f77bcf86cd799439011''"
    by code_simp
  have r: "renameFields 2 exampleDriver ''Author'' (Obj [(''_id'', ObjectId ''507f1f77bcf86cd799439011'')]) True False
    = Inr (Obj [(''_id'', ObjectId ''507f1f77bcf86cd799439011'')])"
    by code_simp
  have m': "metadata exampleDriver ''Tag'' = Some TagMeta"
    by (simp add: exampleDriver_def)
  have p': "properties TagMeta (property_key (index0 (primaryKeys TagMeta)))
    = Some (scalarProperty ''_id'' ''string'' ''_id'')"
    by code_simp
  have f': "fieldNames (scalarProperty ''_id'' ''string'' ''_id'') = Some (''_id'' # [])"
    by (simp add: scalarProperty_def)
  have t': "toLowerCase (type (scalarProperty ''_id'' ''string'' ''_id'')) \<noteq> ''objectid''"
    by code_simp
  from buildFilterById_document[OF m p f refl _ refl, of "''507F1f77bcf86cd799439011''" 2]
    buildFilterById_document[OF m' p' f' refl _ refl, of "''507F1f77bcf86cd799439011''" 2]
    t t' h l r
  show ?thesis by simp
qed

text \<open>
  C7. The claim holds for a primary key whose logical and physical names agree. Line 390
  puts the logical names of \<^verbatim>\<open>meta.primaryKeys\<close> in front, where lines 380-381 translate a
  requested field to its physical name: for \<^verbatim>\<open>Book\<close>, whose primary key \<^verbatim>\<open>id\<close> is stored as
  \<^verbatim>\<open>_id\<close>, the list begins with \<^verbatim>\<open>id\<close>.
\<close>

theorem buildFields_primary_key_name:
  "buildFields exampleDriver ''Book'' [] (Some [FieldName ''title''])
     = Inr (Some [Str ''id'', Str ''title''])
   \<and> map_option fieldNames (properties BookMeta ''id'') = Some (Some [''_id''])
   \<and> buildFields exampleDriver ''Book'' [] (Some [FieldName ''id''])
     = Inr (Some [Str ''_id''])"
  by code_simp

text \<open>
  C9, as amended. In a call of \<^verbatim>\<open>find\<close> for an entity that is not virtual, the rows of the
  connection are returned (each mapped by \<^verbatim>\<open>mapResult\<close>) in reverse order when the call is
  cursor-paginated, \<^verbatim>\<open>last\<close> is truthy (set, and not zero) and \<^verbatim>\<open>first\<close> is falsy (not set,
  or zero); in every other case they are returned in the order of the connection.
\<close>

theorem find_rows_order:
  assumes "find_rows stack drv entityName where' options = Inr rows"
    and "\<not> (case metadata drv entityName of None \<Rightarrow> False | Some meta \<Rightarrow> virtual meta)"
  shows "\<exists>where2 orderBy' fields' res.
           findArguments stack drv entityName where' options = Inr (where2, orderBy', fields')
         \<and> connectionFind drv entityName where2 orderBy' (limit options) (offset options) fields'
             = Inr res
         \<and> rows = map (\<lambda>r. mapResult drv r (metadata drv entityName))
                    (if isCursorPagination options \<and> \<not> truthy (first_opt options)
                        \<and> truthy (last_opt options)
                     then rev res else res)"
  using assms
  by (auto simp: find_rows_def split: if_splits dest!: result_bind_Inr)

theorem find_rows_order_witness:
  "find_rows 2 exampleDriver ''Author'' (Obj []) (noOptions \<lparr> last_opt := Num 2 \<rparr>)
     = Inr [Obj [(''_id'', Num 3)], Obj [(''_id'', Num 2)], Obj [(''_id'', Num 1)]]
   \<and> connectionFind exampleDriver ''Author'' (Obj []) [] Undefined Undefined
        (Some [Str ''_id'', Str ''id'', Str ''name'', Str ''age'', Str ''mail'', Str ''addr''])
     = Inr [Obj [(''_id'', Num 1)], Obj [(''_id'', Num 2)], Obj [(''_id'', Num 3)]]"
proof -
  let ?options = "noOptions \<lparr> last_opt := Num 2 \<rparr>"
  have r: "find_rows 2 exampleDriver ''Author'' (Obj []) ?options
     = Inr [Obj [(''_id'', Num 3)], Obj [(''_id'', Num 2)], Obj [(''_id'', Num 1)]]"
    by code_simp
  have v: "\<not> (case metadata exampleDriver ''Author'' of None \<Rightarrow> False | Some meta \<Rightarrow> virtual meta)"
    by code_simp
  have a: "findArguments 2 exampleDriver ''Author'' (Obj []) ?options
     = Inr (Obj [], [], Some [Str ''_id'', Str ''id'', Str ''name'', Str ''age'', Str ''mail'', Str ''addr''])"
    by code_simp
  from find_rows_order[OF r v] a
  obtain res where
    "connectionFind exampleDriver ''Author'' (Obj []) [] (limit ?options) (offset ?options)
        (Some [Str ''_id'', Str ''id'', Str ''name'', Str ''age'', Str ''mail'', Str ''addr'']) = Inr res"
    by auto
  then have "connectionFind exampleDriver ''Author'' (Obj []) [] Undefined Undefined
        (Some [Str ''_id'', Str ''id'', Str ''name'', Str ''age'', Str ''mail'', Str ''addr''])
     = Inr [Obj [(''_id'', Num 1)], Obj [(''_id'', Num 2)], Obj [(''_id'', Num 3)]]"
    by (simp add: exampleDriver_def exampleRows_def noOptions_def)
  with r show ?thesis by simp
qed

text \<open>
  C9 as stated fails where a count is zero: with \<^verbatim>\<open>first: 0\<close> and \<^verbatim>\<open>last: 2\<close> the rows are
  reversed although \<^verbatim>\<open>first\<close> is set, and with \<^verbatim>\<open>last: 0\<close> alone they are not reversed
  although \<^verbatim>\<open>last\<close> is set and \<^verbatim>\<open>first\<close> is not.
\<close>

theorem find_rows_order_counterexample:
  "find_rows 2 exampleDriver ''Author'' (Obj []) (noOptions \<lparr> first_opt := Num 0, last_opt := Num 2 \<rparr>)
     = Inr [Obj [(''_id'', Num 3)], Obj [(''_id'', Num 2)], Obj [(''_id'', Num 1)]]
   \<and> find_rows 2 exampleDriver ''Author'' (Obj []) (noOptions \<lparr> last_opt := Num 0 \<rparr>)
     = Inr [Obj [(''_id'', Num 1)], Obj [(''_id'', Num 2)], Obj [(''_id'', Num 3)]]
   \<and> connectionFind exampleDriver ''Author'' (Obj []) [] Undefined Undefined
        (Some [Str ''_id'', Str ''id'', Str ''name'', Str ''age'', Str ''mail'', Str ''addr''])
     = Inr [Obj [(''_id'', Num 1)], Obj [(''_id'', Num 2)], Obj [(''_id'', Num 3)]]"
  by code_simp

subsection \<open>The document of the caller\<close>

text \<open>
  C2, as amended. Every call of \<^verbatim>\<open>renameFields\<close> on a document, whether it returns or throws,
  leaves the document of the caller itself as it was: no key of it is added, removed,
  renamed or given another value; and it leaves every object of the store that is not
  reached from the values of the document as it was. A call that returns gives a new
  object. The objects and arrays that are reached from the values of the document are
  shared with the copy, and the call writes to them. (The document does not hold itself, and
  the base class writes to the document it is given and to what is reached from it only.)
\<close>

theorem renameFieldsH_keeps_document:
  assumes "inline_frame inline"
    and "lookup h a = Some ob"
    and "a \<notin> reachable h (orefs ob)"
  shows "lookup (snd (renameFieldsH stack drv inline entityName (Ref a) where' object' h)) a = Some ob
       \<and> (\<forall>b. b < length h \<longrightarrow> b \<notin> reachable h (orefs ob) \<longrightarrow>
            lookup (snd (renameFieldsH stack drv inline entityName (Ref a) where' object' h)) b
              = lookup h b)
       \<and> (\<forall>r. fst (renameFieldsH stack drv inline entityName (Ref a) where' object' h) = Inr r \<longrightarrow>
            r = Ref (length h) \<and> r \<noteq> Ref a)"
proof -
  let ?out = "renameFieldsH stack drv inline entityName (Ref a) where' object' h"
  let ?S = "reachable h (orefs ob) \<union> {b. length h \<le> b}"
  from assms(2) have a: "a < length h"
    by (auto simp: lookup_def split: if_splits)
  have w: "within ?S h (snd ?out)"
    using assms(1,2) by (rule renameFieldsH_frame)
  have same: "lookup (snd ?out) b = lookup h b" if "b < length h" "b \<notin> reachable h (orefs ob)" for b
  proof -
    from that have "b \<notin> ?S" by simp
    with w have "snd ?out ! b = h ! b" "length h \<le> length (snd ?out)" by (auto simp: within_def)
    with that(1) show ?thesis by (simp add: lookup_def)
  qed
  have new: "r = Ref (length h)" if "fst ?out = Inr r" for r
  proof (cases stack)
    case 0
    with that show ?thesis by simp
  next
    case (Suc stack')
    have "?out = (Inr r, snd ?out)" using that by (metis prod.collapse)
    then show ?thesis
      unfolding Suc renameFieldsH.simps renameFields_callH_def
      by (auto split: sum.splits if_splits dest!: bindH_Inr)
  qed
  from same[OF a assms(3)] assms(2) same new a show ?thesis by auto
qed

theorem renameFieldsH_keeps_document_witness:
  "lookup (snd (renameFieldsH 8 exampleDriver noInline ''Author'' (Ref 2) True False identifierStore)) 2
     = Some (HObj [(''_id'', Ref 1), (''email'', HStr ''x'')])
   \<and> fst (renameFieldsH 8 exampleDriver noInline ''Author'' (Ref 2) True False identifierStore)
     = Inr (Ref 3)"
proof -
  have r: "fst (renameFieldsH 8 exampleDriver noInline ''Author'' (Ref 2) True False identifierStore)
      = Inr (Ref 3)"
    by code_simp
  have l: "lookup identifierStore 2 = Some (HObj [(''_id'', Ref 1), (''email'', HStr ''x'')])"
    by code_simp
  have "reachable identifierStore (orefs (HObj [(''_id'', Ref 1), (''email'', HStr ''x'')])) \<subseteq> {0, 1}"
    by (rule reachable_subset) (auto simp: identifierStore_def)
  then have n: "2 \<notin> reachable identifierStore (orefs (HObj [(''_id'', Ref 1), (''email'', HStr ''x'')]))"
    by auto
  from renameFieldsH_keeps_document[OF inline_frame_noInline l n, of 8 exampleDriver "''Author''" True False] r
  show ?thesis by simp
qed

text \<open>
  C2 as stated fails below the top level. In \<^verbatim>\<open>identifierStore\<close> the object
  \<^verbatim>\<open>{$in: [...]}\<close> of the caller (address 1) holds a new array of identifiers after the
  call; in \<^verbatim>\<open>fulltextStore\<close> the branch \<^verbatim>\<open>{$fulltext: 'x'}\<close> of the caller (address 1) is
  empty after the call.
\<close>

theorem renameFieldsH_keeps_document_counterexample:
  "renameFieldsH 8 exampleDriver noInline ''Author'' (Ref 2) True False identifierStore
      = (Inr (Ref 3),
          [HArr [HStr ''507f1f77bcf86cd799439011''],
           HObj [(''$in'', Ref 5)],
           HObj [(''_id'', Ref 1), (''email'', HStr ''x'')],
           HObj [(''_id'', Ref 1), (''mail'', HStr ''x'')],
           HObjectId ''507f1f77bcf86cd799439011'',
           HArr [Ref 4]])
   \<and> lookup identifierStore 1 = Some (HObj [(''$in'', Ref 0)])
   \<and> renameFieldsH 8 exampleDriver noInline ''Author'' (Ref 3) True False fulltextStore
      = (Inr (Ref 4),
          [HObj [(''age'', HNum 1)],
           HObj [],
           HArr [Ref 0, Ref 1],
           HObj [(''$and'', Ref 2)],
           HObj [(''$and'', Ref 8), (''$text'', Ref 5)],
           HObj [(''$search'', HStr ''x'')],
           HObj [(''age'', HNum 1)],
           HObj [],
           HArr [Ref 6, Ref 7]])
   \<and> lookup fulltextStore 1 = Some (HObj [(''$fulltext'', HStr ''x'')])"
  by code_simp


end
